theory Spec2Isabelle
  imports Complex_Main "HOL-Library.Multiset"
begin

section \<open>Locale routing: \<^verbatim>\<open>lib/locale.ts\<close> and \<^verbatim>\<open>middleware.ts\<close>\<close>

text \<open>
  The code of this section is the code of the post on internationalization
  (\<^verbatim>\<open>src/unnamed/part_001\<close>, the blocks \<^verbatim>\<open>middleware.ts\<close> and \<^verbatim>\<open>lib/locale.ts\<close>).

  JavaScript strings are modelled as \<^typ>\<open>string\<close>. Everything the routing code does with
  a string (comparison, \<^verbatim>\<open>startsWith\<close>, \<^verbatim>\<open>split("/")\<close>, concatenation) treats
  the code units alike, so the element type plays no part in it.
\<close>

text \<open>\<^verbatim>\<open>export const locales = ["en", "fr", "ja"] as const;\<close>\<close>

definition locales :: "string list" where
  "locales = [''en'', ''fr'', ''ja'']"

text \<open>\<^verbatim>\<open>String.prototype.startsWith(searchString)\<close>, position 0.\<close>

fun startsWith :: "string \<Rightarrow> string \<Rightarrow> bool" where
  "startsWith s [] = True"
| "startsWith [] (p # ps) = False"
| "startsWith (c # cs) (p # ps) = (c = p \<and> startsWith cs ps)"

text \<open>\<^verbatim>\<open>Array.prototype.some(callback)\<close>: the callback is tried from the left.\<close>

fun array_some :: "('a \<Rightarrow> bool) \<Rightarrow> 'a list \<Rightarrow> bool" where
  "array_some callback [] = False"
| "array_some callback (x # xs) = (if callback x then True else array_some callback xs)"

text \<open>\<^verbatim>\<open>Array.prototype.includes(searchElement)\<close> on an array of strings.\<close>

fun array_includes :: "'a list \<Rightarrow> 'a \<Rightarrow> bool" where
  "array_includes [] v = False"
| "array_includes (x # xs) v = (if x = v then True else array_includes xs v)"

text \<open>
  \<^verbatim>\<open>String.prototype.split(separator)\<close> for a separator of one code unit: the pieces
  between the separators, empty pieces kept, \<^verbatim>\<open>"".split("/")\<close> being \<^verbatim>\<open>[""]\<close>.
  \<open>piece\<close> holds the code units of the current piece read so far.
\<close>

fun split_from :: "char \<Rightarrow> string \<Rightarrow> string \<Rightarrow> string list" where
  "split_from sep piece [] = [piece]"
| "split_from sep piece (c # cs) =
     (if c = sep then piece # split_from sep [] cs else split_from sep (piece @ [c]) cs)"

definition split :: "string \<Rightarrow> char \<Rightarrow> string list" where
  "split s sep = split_from sep [] s"

text \<open>
  \<^verbatim>\<open>
  export function getLocale(pathname: string) {
      const [locale] = pathname.split("/").filter(Boolean);
      return locales.includes(locale as Locale) ? locale : locales[0];
  }
  \<close>
  \<^verbatim>\<open>filter(Boolean)\<close> drops the empty strings. Destructuring an empty array leaves
  \<open>locale\<close> undefined (\<open>None\<close>), which \<^verbatim>\<open>includes\<close> does not find.
\<close>

definition getLocale :: "string \<Rightarrow> string" where
  "getLocale pathname =
     (let locale = (case filter (\<lambda>s. s \<noteq> []) (split pathname CHR ''/'') of
                      [] \<Rightarrow> None
                    | l # _ \<Rightarrow> Some l)
      in case locale of
           None \<Rightarrow> locales ! 0
         | Some l \<Rightarrow> if array_includes locales l then l else locales ! 0)"

text \<open>
  \<^verbatim>\<open>
  export function pathnameHasLocale(pathname: string) {
      return locales.some(
          (locale) =>
              pathname.startsWith(`/${locale}/`) || pathname === `/${locale}`,
      );
  }
  \<close>
\<close>

definition pathnameHasLocale :: "string \<Rightarrow> bool" where
  "pathnameHasLocale pathname =
     array_some (\<lambda>locale. startsWith pathname (''/'' @ locale @ ''/'') \<or> pathname = ''/'' @ locale)
       locales"

text \<open>
  The request, as far as the middleware reads and writes it: the pathname of
  \<^verbatim>\<open>request.nextUrl\<close>. The middleware returns nothing (\<open>None\<close>, the request goes on
  to routing) or \<^verbatim>\<open>NextResponse.redirect(request.nextUrl)\<close>, a redirect to the URL
  whose pathname it has just assigned.
\<close>

record NextRequest =
  nextUrl_pathname :: string

datatype NextResponse = Redirect string

text \<open>
  \<^verbatim>\<open>
  export function middleware(request: NextRequest) {
      const { pathname } = request.nextUrl;
      const hasLocale = pathnameHasLocale(pathname);
      if (hasLocale) return;
      const locale = getLocale(pathname);
      request.nextUrl.pathname = `/${locale}${pathname}`;
      return NextResponse.redirect(request.nextUrl);
  }
  \<close>
  The result is the response together with the request as the call leaves it.
\<close>

definition middleware :: "NextRequest \<Rightarrow> NextResponse option \<times> NextRequest" where
  "middleware request =
     (let pathname = nextUrl_pathname request;
          hasLocale = pathnameHasLocale pathname
      in if hasLocale then (None, request)
         else (let locale = getLocale pathname;
                   request' = request\<lparr>nextUrl_pathname := ''/'' @ locale @ pathname\<rparr>
               in (Some (Redirect (nextUrl_pathname request')), request')))"

section \<open>Content loading: \<^verbatim>\<open>lib/markdown.ts\<close>\<close>

text \<open>
  The code of this section is the second part of \<^verbatim>\<open>src/app/blog/[slug]/page.tsx\<close>, the
  module that the page imports as \<^verbatim>\<open>@/lib/markdown\<close>.

  A rejected promise or a thrown exception is a value of \<open>error\<close>; an \<^verbatim>\<open>async\<close>
  function returns \<open>error + 'a\<close>, \<open>Inl\<close> being the rejection.
\<close>

datatype error = IOError string | MDXError string | TypeError string

text \<open>
  \<^verbatim>\<open>
  export type MDXFrontmatter = {
    title: string; slug: string; description: string; author: string;
    published: number; tags: string[]; githubUrl?: string;
  };
  \<close>
  \<^verbatim>\<open>compileMDX<MDXFrontmatter>\<close> only casts what the frontmatter block of the file holds
  to this type: nothing checks that a key is there (the post in the repository has no
  \<^verbatim>\<open>author\<close> and no \<^verbatim>\<open>tags\<close>). So every field may be absent at run time, \<open>None\<close>
  standing for \<^verbatim>\<open>undefined\<close>. \<open>published\<close> is an integer number of milliseconds;
  the difference of two such numbers has the sign of the exact difference.
\<close>

record MDXFrontmatter =
  title :: "string option"
  slug :: "string option"
  description :: "string option"
  author :: "string option"
  published :: "int option"
  tags :: "string list option"
  githubUrl :: "string option"

text \<open>What \<^verbatim>\<open>compileMDX\<close> resolves to; the compiled content is opaque.\<close>

record 'c CompiledMDX =
  frontmatter :: MDXFrontmatter
  content :: 'c

text \<open>\<^verbatim>\<open>{ ...parsed, timeToRead: estimateReadingTime(fileContent) }\<close>\<close>

record 'c Blog = "'c CompiledMDX" +
  timeToRead :: int

text \<open>The options of the two \<^verbatim>\<open>compileMDX\<close> calls: with or without the plugins.\<close>

datatype mdx_options = ParseFrontmatter | ParseFrontmatterWithPlugins

text \<open>
  What the loader asks of its surroundings: \<^verbatim>\<open>process.cwd()\<close>, \<^verbatim>\<open>path.join\<close>,
  \<^verbatim>\<open>fs.readdir\<close>, \<^verbatim>\<open>fs.readFile(_, "utf8")\<close> and \<^verbatim>\<open>compileMDX\<close>.
\<close>

record 'c env =
  cwd :: string
  path_join :: "string \<Rightarrow> string \<Rightarrow> string"
  readdir :: "string \<Rightarrow> error + string list"
  readFile :: "string \<Rightarrow> error + string"
  compileMDX :: "mdx_options \<Rightarrow> string \<Rightarrow> error + 'c CompiledMDX"

text \<open>
  \<^verbatim>\<open>Promise.all\<close> over the promises of \<^verbatim>\<open>files.map(async ...)\<close>: the array of the
  results in the order of the files, or a rejection when one of them rejects. (Which
  rejection wins when several files fail is a matter of timing; the model takes the first
  in the order of the files.)
\<close>

fun promise_all :: "(error + 'a) list \<Rightarrow> error + 'a list" where
  "promise_all [] = Inr []"
| "promise_all (Inl e # ps) = Inl e"
| "promise_all (Inr x # ps) =
     (case promise_all ps of Inl e \<Rightarrow> Inl e | Inr xs \<Rightarrow> Inr (x # xs))"

text \<open>
  The subtraction of two numbers one of which may be \<^verbatim>\<open>undefined\<close>: the result is then
  \<^verbatim>\<open>NaN\<close>, here \<open>None\<close>.
\<close>

fun number_minus :: "int option \<Rightarrow> int option \<Rightarrow> int option" where
  "number_minus (Some x) (Some y) = Some (x - y)"
| "number_minus _ _ = None"

text \<open>
  \<^verbatim>\<open>Array.prototype.sort(comparefn)\<close>, as V8 (the engine of Node.js) runs it on an
  array of objects. What the comparator returns is read by \<open>SortCompare\<close>, which takes a
  \<^verbatim>\<open>NaN\<close> for \<open>0\<close>. On an array of fewer than 64 elements the sort has two steps:
  \<open>CountAndMakeRun\<close> finds the run the array starts with, and \<open>BinaryInsertionSort\<close>
  inserts every later element into the sorted part, at the place a binary search finds.
  Longer arrays V8 cuts into several runs, each made in this way, and merges them: with
  a consistent comparator (here: every \<open>published\<close> present) that gives the same stable
  order; with an inconsistent one the model keeps to the two steps.
\<close>

definition SortCompare :: "('a \<Rightarrow> 'a \<Rightarrow> int option) \<Rightarrow> 'a \<Rightarrow> 'a \<Rightarrow> int" where
  "SortCompare comparefn x y = (case comparefn x y of None \<Rightarrow> 0 | Some v \<Rightarrow> v)"

text \<open>
  The run goes on while the next element keeps the direction of the first two: not
  below its predecessor in a run that does not descend, strictly below it in a
  descending run. The result is the number of elements after the first two.
\<close>

fun extend_run :: "bool \<Rightarrow> ('a \<Rightarrow> 'a \<Rightarrow> int option) \<Rightarrow> 'a \<Rightarrow> 'a list \<Rightarrow> nat" where
  "extend_run isDescending comparefn previousElement [] = 0"
| "extend_run isDescending comparefn previousElement (currentElement # rest) =
     (let order = SortCompare comparefn currentElement previousElement
      in if (if isDescending then order \<ge> 0 else order < 0) then 0
         else 1 + extend_run isDescending comparefn currentElement rest)"

text \<open>
  The run at the start of the array, a strictly descending run reversed, and the
  elements after it.
\<close>

fun CountAndMakeRun :: "('a \<Rightarrow> 'a \<Rightarrow> int option) \<Rightarrow> 'a list \<Rightarrow> 'a list \<times> 'a list" where
  "CountAndMakeRun comparefn [] = ([], [])"
| "CountAndMakeRun comparefn [x] = ([x], [])"
| "CountAndMakeRun comparefn (elementHigh # elementLow # rest) =
     (let order = SortCompare comparefn elementLow elementHigh;
          isDescending = (order < 0);
          runLength = 2 + extend_run isDescending comparefn elementLow rest;
          run = take runLength (elementHigh # elementLow # rest)
      in (if isDescending then rev run else run, drop runLength (elementHigh # elementLow # rest)))"

text \<open>
  The place of \<open>pivot\<close> among the elements \<open>left\<close> to \<open>right - 1\<close> of the sorted part:
  \<^verbatim>\<open>
  while (left < right) {
    const mid = left + ((right - left) >> 1);
    const order = sortState.Compare(pivot, workArray.objects[mid]);
    if (order < 0) { right = mid; } else { left = mid + 1; }
  }
  \<close>
\<close>

function binary_search :: "('a \<Rightarrow> 'a \<Rightarrow> int option) \<Rightarrow> 'a \<Rightarrow> 'a list \<Rightarrow> nat \<Rightarrow> nat \<Rightarrow> nat" where
  "binary_search comparefn pivot xs left right =
     (if left < right
      then (let mid = left + (right - left) div 2;
                order = SortCompare comparefn pivot (xs ! mid)
            in if order < 0 then binary_search comparefn pivot xs left mid
               else binary_search comparefn pivot xs (mid + 1) right)
      else left)"
  by pat_completeness auto
termination
  apply (relation "measure (\<lambda>(comparefn, pivot, xs, left, right). right - left)")
    apply simp
   apply simp
  apply simp
  apply linarith
  done

declare binary_search.simps [simp del]

text \<open>Each element after the run is put into the sorted part at the place found.\<close>

fun BinaryInsertionSort :: "('a \<Rightarrow> 'a \<Rightarrow> int option) \<Rightarrow> 'a list \<Rightarrow> 'a list \<Rightarrow> 'a list" where
  "BinaryInsertionSort comparefn run [] = run"
| "BinaryInsertionSort comparefn run (pivot # rest) =
     (let left = binary_search comparefn pivot run 0 (length run)
      in BinaryInsertionSort comparefn (take left run @ pivot # drop left run) rest)"

definition array_sort :: "('a \<Rightarrow> 'a \<Rightarrow> int option) \<Rightarrow> 'a list \<Rightarrow> 'a list" where
  "array_sort comparefn xs =
     (case CountAndMakeRun comparefn xs of (run, rest) \<Rightarrow> BinaryInsertionSort comparefn run rest)"

text \<open>
  \<^verbatim>\<open>(await result).filter((item) => item.tags.includes(tag))\<close>: reading \<^verbatim>\<open>includes\<close>
  of a \<^verbatim>\<open>tags\<close> that is undefined throws a TypeError, which rejects the promise of the
  \<^verbatim>\<open>async\<close> function.
\<close>

definition tags_undefined :: error where
  "tags_undefined = TypeError ''Cannot read properties of undefined (reading includes)''"

fun filter_by_tag :: "string \<Rightarrow> MDXFrontmatter list \<Rightarrow> error + MDXFrontmatter list" where
  "filter_by_tag tag [] = Inr []"
| "filter_by_tag tag (item # items) =
     (case tags item of
        None \<Rightarrow> Inl tags_undefined
      | Some ts \<Rightarrow>
          (case filter_by_tag tag items of
             Inl e \<Rightarrow> Inl e
           | Inr kept \<Rightarrow> Inr (if array_includes ts tag then item # kept else kept)))"

text \<open>\<^verbatim>\<open>(await result).sort((a, b) => b.published - a.published)\<close>\<close>

definition sort_by_published_desc :: "MDXFrontmatter list \<Rightarrow> MDXFrontmatter list" where
  "sort_by_published_desc result =
     array_sort (\<lambda>a b. number_minus (published b) (published a)) result"

text \<open>\<^verbatim>\<open>const BASE_CONTENT_PATH = "src/content";\<close>\<close>

definition BASE_CONTENT_PATH :: string where
  "BASE_CONTENT_PATH = ''src/content''"

text \<open>
  The array \<^verbatim>\<open>await result\<close> of \<^verbatim>\<open>getAllMetaData\<close> before it is sorted: the
  frontmatter of every file of the directory, read and compiled.
  \<^verbatim>\<open>
  const files = await fs.readdir(contentDir);
  const result = Promise.all(
    files.map(async (file) => {
      const fileContent = await fs.readFile(contentDir + `/${file}`, "utf8");
      const { frontmatter } = await compileMDX<MDXFrontmatter>({
        source: fileContent, options: { parseFrontmatter: true }, components });
      return frontmatter;
    }));
  \<close>
\<close>

definition getAllMetaData_result :: "'c env \<Rightarrow> string \<Rightarrow> error + MDXFrontmatter list" where
  "getAllMetaData_result env contentDir =
     (case readdir env contentDir of
        Inl e \<Rightarrow> Inl e
      | Inr files \<Rightarrow>
          promise_all (map (\<lambda>file.
            case readFile env (contentDir @ ''/'' @ file) of
              Inl e \<Rightarrow> Inl e
            | Inr fileContent \<Rightarrow>
                (case compileMDX env ParseFrontmatter fileContent of
                   Inl e \<Rightarrow> Inl e
                 | Inr parsed \<Rightarrow> Inr (frontmatter parsed))) files))"

text \<open>
  \<^verbatim>\<open>
  export async function getAllMetaData({ filepath = "/blog", tag = "" }: Options = {}) {
    const contentDir = path.join(process.cwd(), BASE_CONTENT_PATH + filepath);
    ...
    (await result).sort((a, b) => b.published - a.published);
    return tag
      ? (await result).filter((item) => item.tags.includes(tag))
      : result;
  }
  \<close>
  \<^verbatim>\<open>sort\<close> sorts the array in place, so both branches return the sorted array. An
  option left out (\<open>None\<close>) takes its default; the empty tag is falsy.
\<close>

definition getAllMetaData ::
  "'c env \<Rightarrow> string option \<Rightarrow> string option \<Rightarrow> error + MDXFrontmatter list" where
  "getAllMetaData env filepath tag =
     (let filepath = (case filepath of None \<Rightarrow> ''/blog'' | Some p \<Rightarrow> p);
          tag = (case tag of None \<Rightarrow> [] | Some t \<Rightarrow> t);
          contentDir = path_join env (cwd env) (BASE_CONTENT_PATH @ filepath)
      in case getAllMetaData_result env contentDir of
           Inl e \<Rightarrow> Inl e
         | Inr result \<Rightarrow>
             (let sorted = sort_by_published_desc result
              in if tag \<noteq> [] then filter_by_tag tag sorted else Inr sorted))"

subsection \<open>Reading time\<close>

text \<open>
  The code units below 256 that the regular expression \<^verbatim>\<open>\s\<close> matches: tab, line
  feed, vertical tab, form feed, carriage return, space and the no-break space. (The
  others it matches, such as U+2028 or U+FEFF, are code units that \<^typ>\<open>char\<close> does not
  have.)
\<close>

definition isWhiteSpace :: "char \<Rightarrow> bool" where
  "isWhiteSpace c =
     (c = CHR 0x09 \<or> c = CHR 0x0A \<or> c = CHR 0x0B \<or> c = CHR 0x0C \<or> c = CHR 0x0D \<or>
      c = CHR 0x20 \<or> c = CHR 0xA0)"

text \<open>
  \<^verbatim>\<open>text.split(/\s+/)\<close>: the text is cut at every maximal run of white space. A run at
  the very start leaves an empty piece before it, a run at the very end an empty piece
  after it, and the empty text gives the one piece \<^verbatim>\<open>""\<close>.
\<close>

function split_whitespace_from :: "string \<Rightarrow> string \<Rightarrow> string list" where
  "split_whitespace_from piece [] = [piece]"
| "split_whitespace_from piece (c # cs) =
     (if isWhiteSpace c then piece # split_whitespace_from [] (dropWhile isWhiteSpace cs)
      else split_whitespace_from (piece @ [c]) cs)"
  by pat_completeness auto
termination
  by (relation "measure (\<lambda>(piece, s). length s)")
     (auto simp: length_dropWhile_le less_Suc_eq_le)

definition split_whitespace :: "string \<Rightarrow> string list" where
  "split_whitespace s = split_whitespace_from [] s"

text \<open>
  \<^verbatim>\<open>
  function estimateReadingTime(text: string) {
    const wordsPerMinute = 200;
    const wordCount = text.split(/\s+/).length;
    const readingTimeMinutes = Math.ceil(wordCount / wordsPerMinute);
    return readingTimeMinutes;
  }
  \<close>
  The quotient of the two integers is a double; for every length a string can have it is
  close enough to the exact quotient for \<^verbatim>\<open>Math.ceil\<close> to give the exact ceiling.
\<close>

definition estimateReadingTime :: "string \<Rightarrow> int" where
  "estimateReadingTime text =
     (let wordsPerMinute = 200 :: nat;
          wordCount = length (split_whitespace text);
          readingTimeMinutes = \<lceil>real wordCount / real wordsPerMinute\<rceil>
      in readingTimeMinutes)"

text \<open>
  The word count in the words of the specification, "whitespace-delimited tokens": the
  number of maximal runs of code units that are not white space. \<open>in_word\<close> tells
  whether the code unit before the current one belongs to a word.
\<close>

fun word_count_from :: "bool \<Rightarrow> string \<Rightarrow> nat" where
  "word_count_from in_word [] = 0"
| "word_count_from in_word (c # cs) =
     (if isWhiteSpace c then word_count_from False cs
      else (if in_word then 0 else 1) + word_count_from True cs)"

definition word_count :: "string \<Rightarrow> nat" where
  "word_count text = word_count_from False text"

text \<open>
  For the count of the pieces: \<open>1\<close> when the text ends with white space, which leaves an
  empty piece after the last word.
\<close>

definition trailing :: "string \<Rightarrow> nat" where
  "trailing s = (if s \<noteq> [] \<and> isWhiteSpace (last s) then 1 else 0)"

subsection \<open>Siblings of a post\<close>

text \<open>
  \<^verbatim>\<open>Array.prototype.findIndex(predicate)\<close>: the first index whose element satisfies
  the predicate, \<open>-1\<close> when there is none.
\<close>

fun findIndex :: "('a \<Rightarrow> bool) \<Rightarrow> 'a list \<Rightarrow> int" where
  "findIndex predicate [] = - 1"
| "findIndex predicate (x # xs) =
     (if predicate x then 0
      else (let i = findIndex predicate xs in if i = - 1 then - 1 else i + 1))"

text \<open>\<^verbatim>\<open>array[i]\<close>: \<^verbatim>\<open>undefined\<close> (\<open>None\<close>) for an index outside the array.\<close>

definition array_at :: "'a list \<Rightarrow> int \<Rightarrow> 'a option" where
  "array_at xs i = (if 0 \<le> i \<and> i < int (length xs) then Some (xs ! nat i) else None)"

text \<open>
  What \<^verbatim>\<open>readMDX\<close> returns when the slug is found. \<open>previous\<close> and \<open>next'\<close> are
  \<open>None\<close> when the sibling is absent.
\<close>

record 'c Pagination =
  previous :: "MDXFrontmatter option"
  current :: "'c Blog option"
  next' :: "MDXFrontmatter option"

text \<open>
  The array \<^verbatim>\<open>await result\<close> of \<^verbatim>\<open>readMDX\<close> before it is sorted.
  \<^verbatim>\<open>
  const files = await fs.readdir(contentDir);
  const result = Promise.all(
    files.map(async (file) => {
      const fileContent = await fs.readFile(contentDir + `/${file}`, "utf8");
      const parsed = await compileMDX<MDXFrontmatter>({ source: fileContent, options: {
        parseFrontmatter: true, mdxOptions: { rehypePlugins: ..., remarkPlugins: ... } },
        components });
      return { ...parsed, timeToRead: estimateReadingTime(fileContent) };
    }));
  \<close>
\<close>

definition readMDX_result :: "'c env \<Rightarrow> string \<Rightarrow> error + 'c Blog list" where
  "readMDX_result env contentDir =
     (case readdir env contentDir of
        Inl e \<Rightarrow> Inl e
      | Inr files \<Rightarrow>
          promise_all (map (\<lambda>file.
            case readFile env (contentDir @ ''/'' @ file) of
              Inl e \<Rightarrow> Inl e
            | Inr fileContent \<Rightarrow>
                (case compileMDX env ParseFrontmatterWithPlugins fileContent of
                   Inl e \<Rightarrow> Inl e
                 | Inr parsed \<Rightarrow>
                     Inr \<lparr>frontmatter = frontmatter parsed, content = content parsed,
                          timeToRead = estimateReadingTime fileContent\<rparr>)) files))"

text \<open>\<^verbatim>\<open>.sort((a, b) => a.frontmatter.published - b.frontmatter.published)\<close>\<close>

definition sort_by_published_asc :: "'c Blog list \<Rightarrow> 'c Blog list" where
  "sort_by_published_asc result =
     array_sort (\<lambda>a b. number_minus (published (frontmatter a)) (published (frontmatter b)))
       result"

text \<open>
  \<^verbatim>\<open>
  export async function readMDX(slug: string) {
    const contentDir = path.join(process.cwd(), "src/content/blog");
    ...
    const index = (await result)
      .sort((a, b) => a.frontmatter.published - b.frontmatter.published)
      .findIndex((item) => item.frontmatter.slug == slug);
    if (index == -1) return null;
    const previous = (await result)[index + 1] ?? null;
    const current = (await result)[index];
    const next = (await result)[index - 1] ?? null;
    return { previous: previous?.frontmatter, current, next: next?.frontmatter };
  }
  \<close>
  \<^verbatim>\<open>sort\<close> sorts in place, so the three reads are reads of the sorted array. The
  result is a rejection, \<^verbatim>\<open>null\<close> (\<open>Inr None\<close>) or the pagination.
\<close>

definition readMDX :: "'c env \<Rightarrow> string \<Rightarrow> error + 'c Pagination option" where
  "readMDX env slug' =
     (let contentDir = path_join env (cwd env) ''src/content/blog''
      in case readMDX_result env contentDir of
           Inl e \<Rightarrow> Inl e
         | Inr result \<Rightarrow>
             (let sorted = sort_by_published_asc result;
                  index = findIndex (\<lambda>item. slug (frontmatter item) = Some slug') sorted
              in if index = - 1 then Inr None
                 else (let previous = array_at sorted (index + 1);
                           current = array_at sorted index;
                           next = array_at sorted (index - 1)
                       in Inr (Some \<lparr>previous = map_option frontmatter previous,
                                     current = current,
                                     next' = map_option frontmatter next\<rparr>))))"

section \<open>Dictionaries: \<^verbatim>\<open>lib/dictionary.ts\<close>\<close>

text \<open>
  The code of this section is the block \<^verbatim>\<open>lib/dictionary.ts\<close> of the post
  (\<^verbatim>\<open>src/unnamed/part_001\<close>).

  The values the call \<^verbatim>\<open>dictionaries[locale]()\<close> can produce: the default export of a
  JSON module (a dictionary), or what a function inherited from \<^verbatim>\<open>Object.prototype\<close>
  returns when it is called on \<^verbatim>\<open>dictionaries\<close> without arguments.
\<close>

datatype 'd js_value =
    Dictionary 'd
  | String_value string
  | Boolean_value bool
  | Undefined_value
  | New_object
  | Dictionaries_object

text \<open>
  What the property read \<^verbatim>\<open>dictionaries[locale]\<close> finds: one of the two arrow
  functions of the object literal, a function of \<^verbatim>\<open>Object.prototype\<close>, a value that is
  not a function, or nothing.
\<close>

datatype property = Loader string | Inherited_function string | Not_a_function | Missing

text \<open>
  The properties of \<^verbatim>\<open>Object.prototype\<close>, which an object literal inherits: its
  functions, and the accessor \<^verbatim>\<open>__proto__\<close>, whose value is an object.
\<close>

definition object_prototype_functions :: "string list" where
  "object_prototype_functions =
     [''constructor'', ''hasOwnProperty'', ''isPrototypeOf'', ''propertyIsEnumerable'',
      ''toLocaleString'', ''toString'', ''valueOf'', ''__defineGetter__'',
      ''__defineSetter__'', ''__lookupGetter__'', ''__lookupSetter__'']"

definition object_prototype_get :: "string \<Rightarrow> property" where
  "object_prototype_get key =
     (if array_includes object_prototype_functions key then Inherited_function key
      else if key = ''__proto__'' then Not_a_function
      else Missing)"

text \<open>
  \<^verbatim>\<open>
  const dictionaries = {
      en: () => import("@/dict/en.json").then((module) => module.default),
      ja: () => import("@/dict/ja.json").then((module) => module.default)
  };
  \<close>
  A key the literal does not have is looked up in the prototype.
\<close>

definition dictionaries :: "string \<Rightarrow> property" where
  "dictionaries key =
     (if key = ''en'' then Loader ''@/dict/en.json''
      else if key = ''ja'' then Loader ''@/dict/ja.json''
      else object_prototype_get key)"

definition not_a_function :: error where
  "not_a_function = TypeError ''dictionaries[locale] is not a function''"

text \<open>
  A function of \<^verbatim>\<open>Object.prototype\<close> called on \<^verbatim>\<open>dictionaries\<close> with no argument:
  \<^verbatim>\<open>__defineGetter__\<close> and \<^verbatim>\<open>__defineSetter__\<close> throw (the accessor function they
  are given is undefined); the others return.
\<close>

definition call_inherited :: "string \<Rightarrow> error + 'd js_value" where
  "call_inherited name =
     (if name = ''constructor'' then Inr New_object
      else if name = ''hasOwnProperty'' \<or> name = ''isPrototypeOf'' \<or>
              name = ''propertyIsEnumerable'' then Inr (Boolean_value False)
      else if name = ''toLocaleString'' \<or> name = ''toString''
           then Inr (String_value ''[object Object]'')
      else if name = ''valueOf'' then Inr Dictionaries_object
      else if name = ''__lookupGetter__'' \<or> name = ''__lookupSetter__''
           then Inr Undefined_value
      else Inl (TypeError ''Object.prototype.__defineGetter__: Expecting function''))"

text \<open>
  \<^verbatim>\<open>export const getDictionary = async (locale) => dictionaries[locale]();\<close>
  \<open>import_json\<close> is the dynamic \<^verbatim>\<open>import\<close> of a JSON module, resolved to its default
  export. Calling what is not a function throws a TypeError, which rejects the promise.
\<close>

definition getDictionary :: "(string \<Rightarrow> error + 'd) \<Rightarrow> string \<Rightarrow> error + 'd js_value" where
  "getDictionary import_json locale =
     (case dictionaries locale of
        Loader specifier \<Rightarrow>
          (case import_json specifier of Inl e \<Rightarrow> Inl e | Inr d \<Rightarrow> Inr (Dictionary d))
      | Inherited_function name \<Rightarrow> call_inherited name
      | Not_a_function \<Rightarrow> Inl not_a_function
      | Missing \<Rightarrow> Inl not_a_function)"

section \<open>Example collections\<close>

text \<open>
  A collection of three posts, published in the order a, b, c and listed by the
  directory in another order.
\<close>

definition post_a :: MDXFrontmatter where
  "post_a = \<lparr>title = Some ''A'', slug = Some ''a'', description = Some ''first'',
     author = Some ''n'', published = Some 100, tags = Some [''web''], githubUrl = None\<rparr>"

definition post_b :: MDXFrontmatter where
  "post_b = \<lparr>title = Some ''B'', slug = Some ''b'', description = Some ''second'',
     author = Some ''n'', published = Some 200, tags = Some [''web'', ''i18n''],
     githubUrl = None\<rparr>"

definition post_c :: MDXFrontmatter where
  "post_c = \<lparr>title = Some ''C'', slug = Some ''c'', description = Some ''third'',
     author = Some ''n'', published = Some 300, tags = Some [''i18n''], githubUrl = None\<rparr>"

definition three_posts :: "string env" where
  "three_posts =
     \<lparr>cwd = ''/site'',
      path_join = (\<lambda>a b. a @ ''/'' @ b),
      readdir = (\<lambda>dir. if dir = ''/site/src/content/blog''
                         then Inr [''b.mdx'', ''c.mdx'', ''a.mdx'']
                         else Inl (IOError ''ENOENT'')),
      readFile = (\<lambda>file.
         if file = ''/site/src/content/blog/a.mdx'' then Inr ''post a''
         else if file = ''/site/src/content/blog/b.mdx'' then Inr ''post b''
         else if file = ''/site/src/content/blog/c.mdx'' then Inr ''post c''
         else Inl (IOError ''ENOENT'')),
      compileMDX = (\<lambda>options source.
         if source = ''post a'' then Inr \<lparr>frontmatter = post_a, content = ''A''\<rparr>
         else if source = ''post b'' then Inr \<lparr>frontmatter = post_b, content = ''B''\<rparr>
         else if source = ''post c'' then Inr \<lparr>frontmatter = post_c, content = ''C''\<rparr>
         else Inl (MDXError ''syntax''))\<rparr>"

definition blog_a :: "string Blog" where
  "blog_a = \<lparr>frontmatter = post_a, content = ''A'', timeToRead = 1\<rparr>"

definition blog_b :: "string Blog" where
  "blog_b = \<lparr>frontmatter = post_b, content = ''B'', timeToRead = 1\<rparr>"

definition blog_c :: "string Blog" where
  "blog_c = \<lparr>frontmatter = post_c, content = ''C'', timeToRead = 1\<rparr>"

text \<open>
  The frontmatter of the post in the repository (\<^verbatim>\<open>next-i18n\<close>): it has a title, a
  description, a published timestamp and a slug, and neither author nor tags. And a
  frontmatter with no field at all, as of a file without a frontmatter block.
\<close>

definition post_i18n :: MDXFrontmatter where
  "post_i18n = \<lparr>title = Some ''Next.js 15 Internationalization Simplified'',
     slug = Some ''next-i18n'',
     description = Some ''A guide to internationalization in Next.js 15'',
     author = None, published = Some 1739098444364, tags = None, githubUrl = None\<rparr>"

definition no_fields :: MDXFrontmatter where
  "no_fields = \<lparr>title = None, slug = None, description = None, author = None,
     published = None, tags = None, githubUrl = None\<rparr>"

text \<open>A collection of one file, whose frontmatter is \<open>fm\<close>.\<close>

definition single_post :: "MDXFrontmatter \<Rightarrow> unit env" where
  "single_post fm =
     \<lparr>cwd = ''/site'',
      path_join = (\<lambda>a b. a @ ''/'' @ b),
      readdir = (\<lambda>dir. if dir = ''/site/src/content/blog'' then Inr [''post.mdx'']
                         else Inl (IOError ''ENOENT'')),
      readFile = (\<lambda>file. if file = ''/site/src/content/blog/post.mdx'' then Inr ''text''
                          else Inl (IOError ''ENOENT'')),
      compileMDX = (\<lambda>options source. Inr \<lparr>frontmatter = fm, content = ()\<rparr>)\<rparr>"

text \<open>
  A collection of three posts one of which has no published timestamp, listed by the
  directory as w, y, z.
\<close>

definition post_w :: MDXFrontmatter where
  "post_w = \<lparr>title = Some ''W'', slug = Some ''w'', description = Some ''with a date'',
     author = Some ''n'', published = Some 300, tags = Some [''web''], githubUrl = None\<rparr>"

definition post_y :: MDXFrontmatter where
  "post_y = \<lparr>title = Some ''Y'', slug = Some ''y'', description = Some ''without a date'',
     author = Some ''n'', published = None, tags = Some [''draft''], githubUrl = None\<rparr>"

definition post_z :: MDXFrontmatter where
  "post_z = \<lparr>title = Some ''Z'', slug = Some ''z'', description = Some ''with a date'',
     author = Some ''n'', published = Some 100, tags = Some [''web''], githubUrl = None\<rparr>"

definition undated_posts :: "string env" where
  "undated_posts =
     \<lparr>cwd = ''/site'',
      path_join = (\<lambda>a b. a @ ''/'' @ b),
      readdir = (\<lambda>dir. if dir = ''/site/src/content/blog''
                         then Inr [''w.mdx'', ''y.mdx'', ''z.mdx'']
                         else Inl (IOError ''ENOENT'')),
      readFile = (\<lambda>file.
         if file = ''/site/src/content/blog/w.mdx'' then Inr ''post w''
         else if file = ''/site/src/content/blog/y.mdx'' then Inr ''post y''
         else if file = ''/site/src/content/blog/z.mdx'' then Inr ''post z''
         else Inl (IOError ''ENOENT'')),
      compileMDX = (\<lambda>options source.
         if source = ''post w'' then Inr \<lparr>frontmatter = post_w, content = ''W''\<rparr>
         else if source = ''post y'' then Inr \<lparr>frontmatter = post_y, content = ''Y''\<rparr>
         else if source = ''post z'' then Inr \<lparr>frontmatter = post_z, content = ''Z''\<rparr>
         else Inl (MDXError ''syntax''))\<rparr>"

definition blog_w :: "string Blog" where
  "blog_w = \<lparr>frontmatter = post_w, content = ''W'', timeToRead = 1\<rparr>"

definition blog_y :: "string Blog" where
  "blog_y = \<lparr>frontmatter = post_y, content = ''Y'', timeToRead = 1\<rparr>"

definition blog_z :: "string Blog" where
  "blog_z = \<lparr>frontmatter = post_z, content = ''Z'', timeToRead = 1\<rparr>"

text \<open>
  A collection of two files: one that cannot be compiled, and one that the directory
  lists and that cannot be read.
\<close>

definition broken_posts :: "unit env" where
  "broken_posts =
     \<lparr>cwd = ''/site'',
      path_join = (\<lambda>a b. a @ ''/'' @ b),
      readdir = (\<lambda>dir. if dir = ''/site/src/content/blog''
                         then Inr [''bad.mdx'', ''gone.mdx'']
                         else Inl (IOError ''ENOENT'')),
      readFile = (\<lambda>file. if file = ''/site/src/content/blog/bad.mdx'' then Inr ''text''
                          else Inl (IOError ''ENOENT'')),
      compileMDX = (\<lambda>options source. Inl (MDXError ''syntax''))\<rparr>"

text \<open>
  The two JSON modules of the post, each reduced to its \<^verbatim>\<open>home.title\<close>; any other
  module is not found.
\<close>

definition dict_modules :: "string \<Rightarrow> error + string" where
  "dict_modules specifier =
     (if specifier = ''@/dict/en.json'' then Inr ''AriaDocs - Template''
      else if specifier = ''@/dict/ja.json'' then Inr ''AriaDocs - Template (ja)''
      else Inl (IOError ''Cannot find module''))"

section \<open>Auxiliary facts\<close>

subsection \<open>Strings and pathnames\<close>

lemma startsWith_iff: "startsWith s p \<longleftrightarrow> (\<exists>rest. s = p @ rest)"
  by (induction s p rule: startsWith.induct) auto

lemma array_some_iff: "array_some callback xs \<longleftrightarrow> (\<exists>x. x \<in> set xs \<and> callback x)"
  by (induction xs) auto

lemma array_includes_iff: "array_includes xs v \<longleftrightarrow> v \<in> set xs"
  by (induction xs) auto

lemma split_from_takeWhile:
  "split_from sep piece s =
     (piece @ takeWhile (\<lambda>c. c \<noteq> sep) s) #
     (case dropWhile (\<lambda>c. c \<noteq> sep) s of [] \<Rightarrow> [] | _ # r \<Rightarrow> split_from sep [] r)"
  by (induction s arbitrary: piece) auto

lemma getLocale_cases: "getLocale P = ''en'' \<or> getLocale P = ''fr'' \<or> getLocale P = ''ja''"
  by (auto simp: getLocale_def locales_def array_includes_iff Let_def split: list.splits option.splits)

lemma getLocale_single_slash:
  assumes "startsWith P ''/''" and "\<not> startsWith P ''//''" and "\<not> pathnameHasLocale P"
  shows "getLocale P = ''en''"
proof -
  from assms(1) obtain rest where P: "P = CHR ''/'' # rest"
    by (auto simp: startsWith_iff)
  define seg where "seg = takeWhile (\<lambda>c. c \<noteq> CHR ''/'') rest"
  define tl where "tl = dropWhile (\<lambda>c. c \<noteq> CHR ''/'') rest"
  have rest: "rest = seg @ tl" by (simp add: seg_def tl_def)
  have tl: "tl = [] \<or> (\<exists>r. tl = CHR ''/'' # r)"
    unfolding tl_def using hd_dropWhile[of "\<lambda>c. c \<noteq> CHR ''/''" rest]
    by (cases "dropWhile (\<lambda>c. c \<noteq> CHR ''/'') rest") auto
  have notloc: "seg \<notin> set locales"
  proof
    assume "seg \<in> set locales"
    then have "pathnameHasLocale P"
      unfolding pathnameHasLocale_def array_some_iff startsWith_iff
      using tl P rest by (intro exI[of _ seg]) auto
    with assms(3) show False by simp
  qed
  show ?thesis
  proof (cases "seg = []")
    case True
    with assms(2) P rest tl have "rest = []"
      by (auto simp: startsWith_iff)
    then show ?thesis by (simp add: P getLocale_def split_def locales_def)
  next
    case False
    have "split P CHR ''/'' = [] # seg # (case tl of [] \<Rightarrow> [] | _ # r \<Rightarrow> split_from CHR ''/'' [] r)"
      unfolding split_def P by (simp add: split_from_takeWhile[of _ "[]" rest] seg_def tl_def)
    with False notloc show ?thesis
      by (simp add: getLocale_def array_includes_iff locales_def)
  qed
qed

subsection \<open>Sorting, filtering and searching\<close>

lemma mset_BinaryInsertionSort:
  "mset (BinaryInsertionSort cmp run rest) = mset run + mset rest"
proof (induction rest arbitrary: run)
  case Nil
  then show ?case by simp
next
  case (Cons pivot rest)
  have "mset (take n run @ pivot # drop n run) = add_mset pivot (mset run)" for n
    by (metis append_take_drop_id mset.simps(2) mset_append union_mset_add_mset_right)
  then show ?case by (simp add: Cons.IH Let_def)
qed

lemma mset_take_drop: "mset (take n xs) + mset (drop n xs) = mset xs"
  by (metis append_take_drop_id mset_append)

lemma mset_CountAndMakeRun:
  "CountAndMakeRun cmp xs = (run, rest) \<Longrightarrow> mset run + mset rest = mset xs"
  by (induction cmp xs rule: CountAndMakeRun.induct)
     (auto simp: Let_def mset_take_drop split: if_splits)

lemma mset_array_sort: "mset (array_sort cmp xs) = mset xs"
  by (auto simp: array_sort_def mset_BinaryInsertionSort mset_CountAndMakeRun split: prod.splits)


lemma set_array_sort: "set (array_sort cmp xs) = set xs"
  by (metis mset_array_sort set_mset_mset)

lemma length_array_sort: "length (array_sort cmp xs) = length xs"
  by (metis mset_array_sort size_mset)

text \<open>With a comparator that is the difference of integer keys, the sort is the stable sort.\<close>

lemma binary_search_bound:
  fixes key :: "'a \<Rightarrow> int"
  assumes cmp: "\<And>y. y \<in> set xs \<Longrightarrow> SortCompare cmp pivot y = key pivot - key y"
    and sorted: "sorted (map key xs)"
    and "left \<le> right" "right \<le> length xs"
    and "\<forall>i<left. key (xs ! i) \<le> key pivot"
    and "\<forall>i. right \<le> i \<and> i < length xs \<longrightarrow> key pivot < key (xs ! i)"
  shows "binary_search cmp pivot xs left right \<le> length xs \<and>
         (\<forall>i<binary_search cmp pivot xs left right. key (xs ! i) \<le> key pivot) \<and>
         (\<forall>i. binary_search cmp pivot xs left right \<le> i \<and> i < length xs \<longrightarrow>
              key pivot < key (xs ! i))"
  using assms
proof (induction cmp pivot xs left right rule: binary_search.induct)
  case (1 comparefn pivot xs left right)
  show ?case
  proof (cases "left < right")
    case False
    then have stop: "binary_search comparefn pivot xs left right = left"
      by (simp add: binary_search.simps[of comparefn pivot xs left right])
    from False "1.prems"(3) have "left = right" by simp
    with "1.prems"(4,5,6) show ?thesis
      unfolding stop by simp
  next
    case True
    define mid where "mid = left + (right - left) div 2"
    have mid: "left \<le> mid" "mid < right" "mid < length xs"
      using True "1.prems"(4) by (simp_all add: mid_def)
    have order: "SortCompare comparefn pivot (xs ! mid) = key pivot - key (xs ! mid)"
      using "1.prems"(1) mid(3) by simp
    have mono: "key (xs ! i) \<le> key (xs ! j)" if "i \<le> j" "j < length xs" for i j
      using "1.prems"(2) that by (simp add: sorted_iff_nth_mono)
    show ?thesis
    proof (cases "key pivot < key (xs ! mid)")
      case less: True
      have step: "binary_search comparefn pivot xs left right
          = binary_search comparefn pivot xs left mid"
        using True less order
        by (simp add: binary_search.simps[of comparefn pivot xs left right] mid_def Let_def)
      have above: "\<forall>i. mid \<le> i \<and> i < length xs \<longrightarrow> key pivot < key (xs ! i)"
      proof (intro allI impI)
        fix i assume i: "mid \<le> i \<and> i < length xs"
        then have "key (xs ! mid) \<le> key (xs ! i)" using mono[of mid i] by simp
        with less show "key pivot < key (xs ! i)" by linarith
      qed
      have neg: "SortCompare comparefn pivot (xs ! mid) < 0"
        using less order by linarith
      have le: "mid \<le> length xs" using mid(3) by linarith
      show ?thesis
        unfolding step
        by (rule "1.IH"(1)[OF True mid_def refl neg "1.prems"(1) "1.prems"(2) mid(1) le
              "1.prems"(5) above])
    next
      case geq: False
      have step: "binary_search comparefn pivot xs left right
          = binary_search comparefn pivot xs (mid + 1) right"
        using True geq order
        by (simp add: binary_search.simps[of comparefn pivot xs left right] mid_def Let_def)
      have below: "\<forall>i<mid + 1. key (xs ! i) \<le> key pivot"
      proof (intro allI impI)
        fix i assume "i < mid + 1"
        then have "i \<le> mid" by linarith
        then have "key (xs ! i) \<le> key (xs ! mid)" using mono[of i mid] mid(3) by simp
        with geq show "key (xs ! i) \<le> key pivot" by linarith
      qed
      have nonneg: "\<not> SortCompare comparefn pivot (xs ! mid) < 0"
        using geq order by linarith
      have le: "mid + 1 \<le> right" using mid(2) by linarith
      show ?thesis
        unfolding step
        by (rule "1.IH"(2)[OF True mid_def refl nonneg "1.prems"(1) "1.prems"(2) le
              "1.prems"(4) below "1.prems"(6)])
    qed
  qed
qed


lemma binary_search_insert:
  fixes key :: "'a \<Rightarrow> int"
  assumes cmp: "\<And>y. y \<in> set xs \<Longrightarrow> SortCompare cmp pivot y = key pivot - key y"
    and sorted: "sorted (map key xs)"
  shows "take (binary_search cmp pivot xs 0 (length xs)) xs
           = takeWhile (\<lambda>y. key y \<le> key pivot) xs \<and>
         drop (binary_search cmp pivot xs 0 (length xs)) xs
           = dropWhile (\<lambda>y. key y \<le> key pivot) xs"
proof -
  let ?p = "binary_search cmp pivot xs 0 (length xs)"
  have bound: "?p \<le> length xs \<and> (\<forall>i<?p. key (xs ! i) \<le> key pivot) \<and>
      (\<forall>i. ?p \<le> i \<and> i < length xs \<longrightarrow> key pivot < key (xs ! i))"
    by (rule binary_search_bound[OF cmp sorted]) simp_all
  have tw: "takeWhile (\<lambda>y. key y \<le> key pivot) xs = take ?p xs"
  proof (rule takeWhile_eq_take_P_nth)
    fix i assume "i < ?p" "i < length xs"
    with bound show "key (xs ! i) \<le> key pivot" by simp
  next
    assume "?p < length xs"
    with bound have "key pivot < key (xs ! ?p)" by simp
    then show "\<not> key (xs ! ?p) \<le> key pivot" by linarith
  qed
  have "dropWhile (\<lambda>y. key y \<le> key pivot) xs
      = drop (length (takeWhile (\<lambda>y. key y \<le> key pivot) xs)) xs"
    by (rule dropWhile_eq_drop)
  also have "\<dots> = drop ?p xs"
    using bound by (simp add: tw)
  finally show ?thesis using tw by simp
qed

lemma sort_key_snoc:
  fixes key :: "'a \<Rightarrow> int"
  shows "sort_key key (xs @ [x])
     = takeWhile (\<lambda>y. key y \<le> key x) (sort_key key xs) @
       x # dropWhile (\<lambda>y. key y \<le> key x) (sort_key key xs)"
proof (rule properties_for_sort_key)
  let ?s = "sort_key key xs"
  let ?P = "\<lambda>y. key y \<le> key x"
  let ?r = "takeWhile ?P ?s @ x # dropWhile ?P ?s"
  have split: "takeWhile ?P ?s @ dropWhile ?P ?s = ?s" by simp
  have "mset (takeWhile ?P ?s) + mset (dropWhile ?P ?s) = mset ?s"
    by (metis mset_append takeWhile_dropWhile_id)
  then show "mset ?r = mset (xs @ [x])"
    by simp
  have s_sorted: "sorted (map key ?s)" by (rule sorted_sort_key)
  have tw: "\<forall>y\<in>set (takeWhile ?P ?s). key y \<le> key x"
    by (meson set_takeWhileD)
  have dw: "\<forall>y\<in>set (dropWhile ?P ?s). key x < key y"
  proof
    fix y assume y: "y \<in> set (dropWhile ?P ?s)"
    then have ne: "dropWhile ?P ?s \<noteq> []" by (metis empty_iff list.set(1))
    then have "\<not> ?P (hd (dropWhile ?P ?s))" by (rule hd_dropWhile)
    moreover have "sorted (map key (dropWhile ?P ?s))"
      using s_sorted by (metis split map_append sorted_append)
    then have "key (hd (dropWhile ?P ?s)) \<le> key y"
      using y ne by (cases "dropWhile ?P ?s") auto
    ultimately show "key x < key y" by linarith
  qed
  have "sorted (map key (takeWhile ?P ?s))" "sorted (map key (dropWhile ?P ?s))"
    using s_sorted by (metis split map_append sorted_append)+
  then show "sorted (map key ?r)"
    using tw dw by (auto simp: sorted_append) (meson less_le_not_le order_trans)
  fix k assume "k \<in> set ?r"
  have stable: "filter (\<lambda>y. key k = key y) ?s = filter (\<lambda>y. key k = key y) xs"
    using sort_key_stable[of key "key k" xs] by (simp add: eq_commute)
  have "filter (\<lambda>y. key k = key y) ?r = filter (\<lambda>y. key k = key y) ?s @
      (if key k = key x then [x] else [])"
  proof (cases "key k = key x")
    case True
    then have "filter (\<lambda>y. key k = key y) (dropWhile ?P ?s) = []"
      using dw by (auto simp: filter_empty_conv)
    moreover have "filter (\<lambda>y. key k = key y) ?s
        = filter (\<lambda>y. key k = key y) (takeWhile ?P ?s) @ filter (\<lambda>y. key k = key y) (dropWhile ?P ?s)"
      by (metis split filter_append)
    ultimately show ?thesis using True by simp
  next
    case False
    have "filter (\<lambda>y. key k = key y) ?s
        = filter (\<lambda>y. key k = key y) (takeWhile ?P ?s) @ filter (\<lambda>y. key k = key y) (dropWhile ?P ?s)"
      by (metis split filter_append)
    then show ?thesis using False by simp
  qed
  then show "filter (\<lambda>y. key k = key y) ?r = filter (\<lambda>y. key k = key y) (xs @ [x])"
    by (simp add: stable)
qed


lemma extend_run_ascending:
  fixes key :: "'a \<Rightarrow> int"
  assumes "\<And>a b. a \<in> insert prev (set rest) \<Longrightarrow> b \<in> insert prev (set rest) \<Longrightarrow>
             SortCompare cmp a b = key a - key b"
  shows "sorted (map key (prev # take (extend_run False cmp prev rest) rest))"
  using assms
proof (induction rest arbitrary: prev)
  case Nil
  then show ?case by simp
next
  case (Cons cur rest)
  have order: "SortCompare cmp cur prev = key cur - key prev"
    using Cons.prems by simp
  show ?case
  proof (cases "key cur < key prev")
    case True
    then show ?thesis using order by (simp add: Let_def)
  next
    case False
    have "sorted (map key (cur # take (extend_run False cmp cur rest) rest))"
      by (rule Cons.IH) (use Cons.prems in auto)
    moreover have "key prev \<le> key cur" using False by linarith
    ultimately have "sorted (map key (prev # cur # take (extend_run False cmp cur rest) rest))"
      by (auto intro: order_trans)
    then show ?thesis using False order by (simp add: Let_def del: sorted_simps list.map)
  qed
qed

lemma extend_run_descending:
  fixes key :: "'a \<Rightarrow> int"
  assumes "\<And>a b. a \<in> insert prev (set rest) \<Longrightarrow> b \<in> insert prev (set rest) \<Longrightarrow>
             SortCompare cmp a b = key a - key b"
  shows "sorted_wrt (>) (map key (prev # take (extend_run True cmp prev rest) rest))"
  using assms
proof (induction rest arbitrary: prev)
  case Nil
  then show ?case by simp
next
  case (Cons cur rest)
  have order: "SortCompare cmp cur prev = key cur - key prev"
    using Cons.prems by simp
  show ?case
  proof (cases "key cur < key prev")
    case False
    then show ?thesis using order by (simp add: Let_def)
  next
    case True
    have IH: "sorted_wrt (>) (map key (cur # take (extend_run True cmp cur rest) rest))"
      by (rule Cons.IH) (use Cons.prems in auto)
    then have "\<forall>y\<in>set (take (extend_run True cmp cur rest) rest). key y < key prev"
      using True by auto
    then show ?thesis using True order IH by (simp add: Let_def)
  qed
qed

lemma filter_distinct_key:
  "distinct (map key xs) \<Longrightarrow> k \<in> set xs \<Longrightarrow> filter (\<lambda>y. key k = key y) xs = [k]"
proof (induction xs)
  case Nil
  then show ?case by simp
next
  case (Cons x xs)
  show ?case
  proof (cases "k = x")
    case True
    have "filter (\<lambda>y. key x = key y) xs = []"
      using Cons.prems(1) by (auto simp: filter_empty_conv)
    with True show ?thesis by simp
  next
    case False
    with Cons.prems have k: "k \<in> set xs" by simp
    moreover have "key x \<notin> key ` set xs" using Cons.prems(1) by simp
    ultimately have "key k \<noteq> key x" by (metis imageI)
    then show ?thesis using Cons.IH k Cons.prems(1) by simp
  qed
qed

lemma sort_key_descending:
  fixes key :: "'a \<Rightarrow> int"
  assumes "sorted_wrt (>) (map key xs)"
  shows "sort_key key xs = rev xs"
proof (rule properties_for_sort_key)
  show "mset (rev xs) = mset xs" by simp
  have "sorted_wrt (<) (rev (map key xs))"
    using assms by (simp add: sorted_wrt_rev)
  then have strict: "sorted_wrt (<) (map key (rev xs))" by (simp add: rev_map)
  then show "sorted (map key (rev xs))"
    by (metis strict_sorted_iff)
  have distinct: "distinct (map key xs)"
    using strict by (metis strict_sorted_iff distinct_rev rev_map)
  fix k assume "k \<in> set (rev xs)"
  then have k: "k \<in> set xs" by simp
  have "filter (\<lambda>y. key k = key y) (rev xs) = rev (filter (\<lambda>y. key k = key y) xs)"
    by (simp add: rev_filter)
  then show "filter (\<lambda>y. key k = key y) (rev xs) = filter (\<lambda>y. key k = key y) xs"
    using filter_distinct_key[OF distinct k] by simp
qed

lemma CountAndMakeRun_key:
  fixes key :: "'a \<Rightarrow> int"
  assumes cmp: "\<And>a b. a \<in> set xs \<Longrightarrow> b \<in> set xs \<Longrightarrow> SortCompare cmp a b = key a - key b"
  shows "\<exists>n. CountAndMakeRun cmp xs = (sort_key key (take n xs), drop n xs)"
proof -
  consider (empty) "xs = []" | (single) x where "xs = [x]"
    | (more) elementHigh elementLow rest where "xs = elementHigh # elementLow # rest"
    by (metis neq_Nil_conv)
  then show ?thesis
  proof cases
  case empty
  then show ?thesis by simp
next
  case (single x)
  then have "CountAndMakeRun cmp xs = (sort_key key (take 1 xs), drop 1 xs)" by simp
  then show ?thesis by blast
next
  case (more elementHigh elementLow rest)
  then have xs: "xs = elementHigh # elementLow # rest" by simp
  have order: "SortCompare cmp elementLow elementHigh = key elementLow - key elementHigh"
    using cmp xs by simp
  have cmp': "\<And>a b. a \<in> insert elementLow (set rest) \<Longrightarrow> b \<in> insert elementLow (set rest) \<Longrightarrow>
             SortCompare cmp a b = key a - key b"
    using cmp xs by simp
  show ?thesis
  proof (cases "key elementLow < key elementHigh")
    case True
    let ?n = "2 + extend_run True cmp elementLow rest"
    have "sorted_wrt (>) (map key (elementLow # take (extend_run True cmp elementLow rest) rest))"
      using cmp' by (rule extend_run_descending)
    then have "sorted_wrt (>) (map key (take ?n xs))"
      using True by (auto simp: xs)
    then have "sort_key key (take ?n xs) = rev (take ?n xs)"
      by (rule sort_key_descending)
    then have "CountAndMakeRun cmp xs = (sort_key key (take ?n xs), drop ?n xs)"
      using True order by (simp add: xs Let_def)
    then show ?thesis by blast
  next
    case False
    let ?n = "2 + extend_run False cmp elementLow rest"
    have "sorted (map key (elementLow # take (extend_run False cmp elementLow rest) rest))"
      using cmp' by (rule extend_run_ascending)
    then have "sorted (map key (take ?n xs))"
      using False by (auto simp: xs)
    then have "sort_key key (take ?n xs) = take ?n xs"
      by (rule sort_key_id_if_sorted)
    then have "CountAndMakeRun cmp xs = (sort_key key (take ?n xs), drop ?n xs)"
      using False order by (simp add: xs Let_def)
    then show ?thesis by blast
  qed
  qed
qed

lemma BinaryInsertionSort_key:
  fixes key :: "'a \<Rightarrow> int"
  assumes "\<And>a b. a \<in> set pre \<union> set rest \<Longrightarrow> b \<in> set pre \<union> set rest \<Longrightarrow>
             SortCompare cmp a b = key a - key b"
  shows "BinaryInsertionSort cmp (sort_key key pre) rest = sort_key key (pre @ rest)"
  using assms
proof (induction rest arbitrary: pre)
  case Nil
  then show ?case by simp
next
  case (Cons pivot rest)
  let ?run = "sort_key key pre"
  let ?left = "binary_search cmp pivot ?run 0 (length ?run)"
  have "take ?left ?run = takeWhile (\<lambda>y. key y \<le> key pivot) ?run \<and>
        drop ?left ?run = dropWhile (\<lambda>y. key y \<le> key pivot) ?run"
  proof (rule binary_search_insert)
    show "sorted (map key ?run)" by (rule sorted_sort_key)
    fix y assume "y \<in> set ?run"
    then show "SortCompare cmp pivot y = key pivot - key y"
      using Cons.prems by simp
  qed
  then have "take ?left ?run @ pivot # drop ?left ?run = sort_key key (pre @ [pivot])"
    by (simp add: sort_key_snoc)
  moreover have "BinaryInsertionSort cmp (sort_key key (pre @ [pivot])) rest
      = sort_key key ((pre @ [pivot]) @ rest)"
    by (rule Cons.IH) (use Cons.prems in auto)
  ultimately show ?case by (simp add: Let_def)
qed

lemma array_sort_key:
  assumes "\<And>a b. a \<in> set xs \<Longrightarrow> b \<in> set xs \<Longrightarrow> SortCompare cmp a b = key a - key b"
  shows "array_sort cmp xs = sort_key (key :: 'a \<Rightarrow> int) xs"
proof -
  from CountAndMakeRun_key[of xs cmp key] assms
  obtain n where run: "CountAndMakeRun cmp xs = (sort_key key (take n xs), drop n xs)"
    by blast
  have "BinaryInsertionSort cmp (sort_key key (take n xs)) (drop n xs)
      = sort_key key (take n xs @ drop n xs)"
  proof (rule BinaryInsertionSort_key)
    fix a b assume "a \<in> set (take n xs) \<union> set (drop n xs)" "b \<in> set (take n xs) \<union> set (drop n xs)"
    then have "a \<in> set xs" "b \<in> set xs"
      by (meson Un_iff in_set_takeD in_set_dropD)+
    then show "SortCompare cmp a b = key a - key b" by (rule assms)
  qed
  then show ?thesis by (simp add: array_sort_def run)
qed

lemma sort_by_published_asc_key:
  assumes "\<forall>d\<in>set docs. published (frontmatter d) \<noteq> None"
  shows "sort_by_published_asc docs = sort_key (\<lambda>d. the (published (frontmatter d))) docs"
  unfolding sort_by_published_asc_def
proof (rule array_sort_key)
  fix a b :: "'a Blog"
  assume "a \<in> set docs" "b \<in> set docs"
  with assms obtain x y where
    "published (frontmatter a) = Some x" "published (frontmatter b) = Some y"
    by (meson not_Some_eq)
  then show "SortCompare (\<lambda>a b. number_minus (published (frontmatter a))
      (published (frontmatter b))) a b
    = the (published (frontmatter a)) - the (published (frontmatter b))"
    by (simp add: SortCompare_def)
qed

lemma sort_by_published_desc_key:
  assumes "\<forall>d\<in>set docs. published d \<noteq> None"
  shows "sort_by_published_desc docs = sort_key (\<lambda>d. - the (published d)) docs"
  unfolding sort_by_published_desc_def
proof (rule array_sort_key)
  fix a b :: MDXFrontmatter
  assume "a \<in> set docs" "b \<in> set docs"
  with assms obtain x y where "published a = Some x" "published b = Some y"
    by (meson not_Some_eq)
  then show "SortCompare (\<lambda>a b. number_minus (published b) (published a)) a b
    = - the (published a) - - the (published b)"
    by (simp add: SortCompare_def)
qed

lemma filter_by_tag_eq:
  "filter_by_tag tag xs =
     (if \<exists>d\<in>set xs. tags d = None then Inl tags_undefined
      else Inr (filter (\<lambda>d. tag \<in> set (the (tags d))) xs))"
  by (induction xs) (auto simp: array_includes_iff split: option.splits)

lemma findIndex_range: "- 1 \<le> findIndex P xs \<and> findIndex P xs < int (length xs)"
  by (induction xs) (auto simp: Let_def)

lemma findIndex_none: "findIndex P xs = - 1 \<longleftrightarrow> (\<forall>x\<in>set xs. \<not> P x)"
proof (induction xs)
  case Nil
  then show ?case by simp
next
  case (Cons x xs)
  then show ?case using findIndex_range[of P xs] by (auto simp: Let_def)
qed

lemma findIndex_first:
  assumes "i < length xs" "P (xs ! i)" "\<forall>j<i. \<not> P (xs ! j)"
  shows "findIndex P xs = int i"
  using assms
proof (induction xs arbitrary: i)
  case Nil
  then show ?case by simp
next
  case (Cons x xs)
  show ?case
  proof (cases i)
    case 0
    with Cons.prems show ?thesis by simp
  next
    case (Suc k)
    with Cons.prems have "\<not> P x" by auto
    moreover have "findIndex P xs = int k"
      using Cons.prems Suc by (intro Cons.IH) auto
    ultimately show ?thesis using Suc by (simp add: Let_def)
  qed
qed


subsection \<open>Reading time and array reads\<close>

lemma ceiling_div_200: "\<lceil>real n / 200\<rceil> = (int n + 199) div 200"
proof -
  have "\<lceil>real n / 200\<rceil> = \<lceil>of_int (int n) / (of_int 200 :: real)\<rceil>"
    by simp
  also have "\<dots> = - (- int n div 200)"
    by (rule ceiling_divide_eq_div)
  also have "\<dots> = (int n + 199) div 200"
    by linarith
  finally show ?thesis .
qed

lemma estimateReadingTime_div:
  "estimateReadingTime text = (int (length (split_whitespace text)) + 199) div 200"
  unfolding estimateReadingTime_def Let_def
  by (simp add: ceiling_div_200)

lemma three_posts_result:
  "readMDX_result three_posts ''/site/src/content/blog'' = Inr [blog_b, blog_c, blog_a]"
  by (simp add: readMDX_result_def three_posts_def blog_a_def blog_b_def blog_c_def
      estimateReadingTime_div split_whitespace_def isWhiteSpace_def)

lemma three_posts_published:
  "published post_a = Some 100" "published post_b = Some 200" "published post_c = Some 300"
  "published (frontmatter blog_a) = Some 100" "published (frontmatter blog_b) = Some 200"
  "published (frontmatter blog_c) = Some 300"
  by (simp_all add: blog_a_def blog_b_def blog_c_def post_a_def post_b_def post_c_def)

lemma three_posts_sorted:
  "sort_by_published_asc [blog_b, blog_c, blog_a] = [blog_a, blog_b, blog_c]"
  by (simp add: sort_by_published_asc_def array_sort_def SortCompare_def Let_def
      binary_search.simps three_posts_published)


lemma array_at_nth: "i < length xs \<Longrightarrow> array_at xs (int i) = Some (xs ! i)"
  by (simp add: array_at_def)

lemma array_at_succ:
  "array_at xs (int i + 1) = (if i + 1 < length xs then Some (xs ! (i + 1)) else None)"
  by (auto simp: array_at_def nat_add_distrib)

lemma array_at_pred:
  "i < length xs \<Longrightarrow>
     array_at xs (int i - 1) = (if 0 < i then Some (xs ! (i - 1)) else None)"
  by (auto simp: array_at_def nat_diff_distrib)

lemma three_posts_loaded:
  "readMDX_result three_posts (path_join three_posts (cwd three_posts) ''src/content/blog'')
     = Inr [blog_b, blog_c, blog_a]"
  using three_posts_result by (simp add: three_posts_def)

subsection \<open>The result of \<open>readMDX\<close>\<close>

lemma readMDX_not_found:
  assumes "readMDX_result env (path_join env (cwd env) ''src/content/blog'') = Inr docs"
    and "\<forall>d\<in>set docs. slug (frontmatter d) \<noteq> Some s"
  shows "readMDX env s = Inr None"
proof -
  have "set (sort_by_published_asc docs) = set docs"
    by (simp add: sort_by_published_asc_def set_array_sort)
  with assms(2)
  have "findIndex (\<lambda>item. slug (frontmatter item) = Some s) (sort_by_published_asc docs) = - 1"
    by (simp add: findIndex_none)
  then show ?thesis
    by (simp add: readMDX_def assms(1) Let_def)
qed

lemma readMDX_found:
  assumes "readMDX_result env (path_join env (cwd env) ''src/content/blog'') = Inr docs"
    and "i < length docs"
    and "slug (frontmatter (sort_by_published_asc docs ! i)) = Some s"
    and "\<forall>j<i. slug (frontmatter (sort_by_published_asc docs ! j)) \<noteq> Some s"
  shows "readMDX env s =
         Inr (Some \<lparr>previous = (if i + 1 < length docs
                                 then Some (frontmatter (sort_by_published_asc docs ! (i + 1)))
                                 else None),
                    current = Some (sort_by_published_asc docs ! i),
                    next' = (if 0 < i
                              then Some (frontmatter (sort_by_published_asc docs ! (i - 1)))
                              else None)\<rparr>)"
proof -
  define ds where "ds = sort_by_published_asc docs"
  have len: "length ds = length docs"
    by (simp add: ds_def sort_by_published_asc_def length_array_sort)
  have idx: "findIndex (\<lambda>item. slug (frontmatter item) = Some s) ds = int i"
    using assms(2-4) len unfolding ds_def by (intro findIndex_first) auto
  show ?thesis
    using assms(2) len
    by (simp add: readMDX_def assms(1) Let_def idx array_at_nth array_at_succ array_at_pred
        flip: ds_def)
qed

subsection \<open>Three documents\<close>

lemma sort_key_three:
  fixes key :: "'a \<Rightarrow> int"
  assumes "mset docs = {#A, B, C#}" "key A < key B" "key B < key C"
  shows "sort_key key docs = [A, B, C]"
proof (rule properties_for_sort_key)
  show "mset [A, B, C] = mset docs" using assms(1) by simp
  show "sorted (map key [A, B, C])" using assms(2,3) by simp
  fix k assume k: "k \<in> set [A, B, C]"
  have "mset (filter (\<lambda>x. key k = key x) docs) = {#k#}"
    using k assms by (auto simp: )
  then have "filter (\<lambda>x. key k = key x) docs = [k]" by (simp only: mset_single_iff)
  moreover have "filter (\<lambda>x. key k = key x) [A, B, C] = [k]"
    using k assms(2,3) by auto
  ultimately show "filter (\<lambda>x. key k = key x) [A, B, C] = filter (\<lambda>x. key k = key x) docs"
    by simp
qed

lemma three_posts_mset: "mset [blog_b, blog_c, blog_a] = {#blog_a, blog_b, blog_c#}"
  by simp

subsection \<open>Loading the metadata\<close>

lemma promise_all_map:
  assumes "\<forall>x\<in>set xs. \<exists>y. f x = Inr y"
  shows "promise_all (map f xs) = Inr (map (\<lambda>x. projr (f x)) xs)"
  using assms by (induction xs) auto

lemma desc_mset: "mset (sort_by_published_desc docs) = mset docs"
  by (simp add: sort_by_published_desc_def mset_array_sort)

lemma single_post_result:
  "getAllMetaData_result (single_post fm) ''/site/src/content/blog'' = Inr [fm]"
  by (simp add: getAllMetaData_result_def single_post_def)

lemma single_post_dir:
  "path_join (single_post fm) (cwd (single_post fm)) (BASE_CONTENT_PATH @ ''/blog'')
     = ''/site/src/content/blog''"
  by (simp add: single_post_def BASE_CONTENT_PATH_def)

subsection \<open>Pieces and words\<close>

lemma split_whitespace_from_nonempty: "split_whitespace_from piece s \<noteq> []"
  by (induction piece s rule: split_whitespace_from.induct) auto

lemma word_count_from_dropWhile:
  "word_count_from False (dropWhile isWhiteSpace s) = word_count_from False s"
  by (induction s) auto

lemma word_count_from_all_space:
  "dropWhile isWhiteSpace s = [] \<Longrightarrow> word_count_from b s = 0"
  by (induction s arbitrary: b) (auto split: if_splits)

lemma word_count_from_start:
  "s \<noteq> [] \<Longrightarrow> \<not> isWhiteSpace (hd s) \<Longrightarrow>
     word_count_from False s = 1 + word_count_from True s"
  by (cases s) auto

lemma trailing_dropWhile:
  "dropWhile isWhiteSpace s \<noteq> [] \<Longrightarrow> trailing (dropWhile isWhiteSpace s) = trailing s"
  by (induction s) (auto simp: trailing_def split: if_splits)

lemma trailing_all_space:
  "dropWhile isWhiteSpace s = [] \<Longrightarrow> isWhiteSpace c \<Longrightarrow> trailing (c # s) = 1"
  by (induction s arbitrary: c) (auto simp: trailing_def split: if_splits)

lemma pieces_count:
  "length (split_whitespace_from piece s) = 1 + word_count_from True s + trailing s"
proof (induction piece s rule: split_whitespace_from.induct)
  case (1 piece)
  then show ?case by (simp add: trailing_def)
next
  case (2 piece c cs)
  show ?case
  proof (cases "isWhiteSpace c")
    case True
    let ?d = "dropWhile isWhiteSpace cs"
    have IH: "length (split_whitespace_from [] ?d) = 1 + word_count_from True ?d + trailing ?d"
      using 2(1) True by simp
    show ?thesis
    proof (cases "?d = []")
      case empty: True
      have "length (split_whitespace_from [] ?d) = 1"
        unfolding empty by simp
      moreover have "word_count_from False cs = 0"
        using empty by (rule word_count_from_all_space)
      moreover have "trailing (c # cs) = 1"
        using empty True by (rule trailing_all_space)
      ultimately show ?thesis using True by simp
    next
      case False
      then have hd: "\<not> isWhiteSpace (hd ?d)" by (simp add: hd_dropWhile)
      have "word_count_from False cs = 1 + word_count_from True ?d"
        using word_count_from_start[OF False hd] by (simp add: word_count_from_dropWhile)
      moreover have "trailing (c # cs) = trailing ?d"
        using trailing_dropWhile[OF False] False by (auto simp: trailing_def)
      ultimately show ?thesis using True IH by simp
    qed
  next
    case False
    then show ?thesis using 2(2) by (auto simp: trailing_def)
  qed
qed

lemma wordCount_eq:
  "length (split_whitespace text) =
     word_count text + (if text = [] \<or> isWhiteSpace (hd text) then 1 else 0)
       + (if text \<noteq> [] \<and> isWhiteSpace (last text) then 1 else 0)"
proof -
  have "length (split_whitespace text) = 1 + word_count_from True text + trailing text"
    by (simp only: split_whitespace_def pieces_count)
  moreover have "word_count text + (if text = [] \<or> isWhiteSpace (hd text) then 1 else 0)
      = 1 + word_count_from True text"
    by (cases "text") (simp_all add: word_count_def)
  ultimately show ?thesis by (simp add: trailing_def)
qed

lemma word_count_from_replicate:
  assumes "\<not> isWhiteSpace a" "isWhiteSpace b"
  shows "word_count_from False (concat (replicate n [a, b]) @ s) = n + word_count_from False s"
  using assms by (induction n) auto

lemma last_concat_replicate: "0 < n \<Longrightarrow> last (concat (replicate n [a, b])) = b"
  by (induction n) auto

lemma concat_replicate_nonempty: "0 < n \<Longrightarrow> concat (replicate n [a, b]) \<noteq> []"
  by (cases n) auto

subsection \<open>The dictionary table\<close>

lemma call_inherited_no_dictionary: "call_inherited name \<noteq> Inr (Dictionary d)"
  by (simp add: call_inherited_def)

lemma getDictionary_inherited:
  "L \<noteq> ''en'' \<Longrightarrow> L \<noteq> ''ja'' \<Longrightarrow>
     getDictionary import_json L = call_inherited L \<or>
     getDictionary import_json L = Inl not_a_function"
  by (simp add: getDictionary_def dictionaries_def object_prototype_get_def)

lemma dictionaries_other:
  "L \<noteq> ''en'' \<Longrightarrow> L \<noteq> ''ja'' \<Longrightarrow> \<not> array_includes object_prototype_functions L \<Longrightarrow>
     dictionaries L = Not_a_function \<or> dictionaries L = Missing"
  by (simp add: dictionaries_def object_prototype_get_def)

subsection \<open>A collection with an undated post, and one that does not load\<close>

lemma undated_posts_published:
  "published post_w = Some 300" "published post_y = None" "published post_z = Some 100"
  "published (frontmatter blog_w) = Some 300" "published (frontmatter blog_y) = None"
  "published (frontmatter blog_z) = Some 100"
  by (simp_all add: blog_w_def blog_y_def blog_z_def post_w_def post_y_def post_z_def)

lemma undated_posts_loaded:
  "readMDX_result undated_posts (path_join undated_posts (cwd undated_posts) ''src/content/blog'')
     = Inr [blog_w, blog_y, blog_z]"
  by (simp add: readMDX_result_def undated_posts_def blog_w_def blog_y_def blog_z_def
      estimateReadingTime_div split_whitespace_def isWhiteSpace_def)

lemma undated_posts_sorted:
  "sort_by_published_asc [blog_w, blog_y, blog_z] = [blog_w, blog_y, blog_z]"
  by (simp add: sort_by_published_asc_def array_sort_def SortCompare_def Let_def
      binary_search.simps undated_posts_published)

lemma promise_all_Inl:
  "promise_all ps = Inl e \<Longrightarrow> Inl e \<in> set ps"
  by (induction ps rule: promise_all.induct) (auto split: sum.splits)

lemma promise_all_fails:
  "Inl e \<in> set ps \<Longrightarrow> \<exists>e'. promise_all ps = Inl e'"
  by (induction ps rule: promise_all.induct) (auto split: sum.splits)

lemma broken_posts_dir:
  "path_join broken_posts (cwd broken_posts) (BASE_CONTENT_PATH @ ''/blog'')
     = ''/site/src/content/blog''"
  by (simp add: broken_posts_def BASE_CONTENT_PATH_def)

section \<open>The claims\<close>

text \<open>
  Claim C8. \<open>pathnameHasLocale P\<close> is true exactly when, for one of the locales
  "en", "fr", "ja", the pathname \<open>P\<close> starts with "/", the locale and "/", or is "/"
  followed by the locale and nothing else.
\<close>

theorem pathnameHasLocale_iff:
  "pathnameHasLocale P \<longleftrightarrow>
     (\<exists>L. (L = ''en'' \<or> L = ''fr'' \<or> L = ''ja'') \<and>
          ((\<exists>rest. P = ''/'' @ L @ ''/'' @ rest) \<or> P = ''/'' @ L))"
  unfolding pathnameHasLocale_def array_some_iff startsWith_iff locales_def
  by auto

text \<open>
  Claim C1, as the code has it. When \<open>pathnameHasLocale\<close> holds of the request's
  pathname \<open>P\<close>, the middleware returns no response and leaves the request as it is.
  When it does not hold, the middleware assigns the pathname "/", \<open>getLocale P\<close>, \<open>P\<close>
  and redirects to it; and \<open>getLocale P\<close> is the default locale "en" for every such
  \<open>P\<close> that starts with exactly one "/".
\<close>

theorem middleware_rewrite:
  "(pathnameHasLocale (nextUrl_pathname request) \<longrightarrow> middleware request = (None, request)) \<and>
   (\<not> pathnameHasLocale (nextUrl_pathname request) \<longrightarrow>
      middleware request =
        (Some (Redirect (''/'' @ getLocale (nextUrl_pathname request) @ nextUrl_pathname request)),
         request\<lparr>nextUrl_pathname :=
           ''/'' @ getLocale (nextUrl_pathname request) @ nextUrl_pathname request\<rparr>) \<and>
      (startsWith (nextUrl_pathname request) ''/'' \<and>
       \<not> startsWith (nextUrl_pathname request) ''//'' \<longrightarrow>
         getLocale (nextUrl_pathname request) = ''en''))"
  using getLocale_single_slash[of "nextUrl_pathname request"]
  by (simp add: middleware_def Let_def)

text \<open>The two examples of the specification: "/about" and "/en/about".\<close>

theorem middleware_rewrite_witness:
  "middleware \<lparr>nextUrl_pathname = ''/about''\<rparr>
     = (Some (Redirect ''/en/about''), \<lparr>nextUrl_pathname = ''/en/about''\<rparr>) \<and>
   middleware \<lparr>nextUrl_pathname = ''/en/about''\<rparr> = (None, \<lparr>nextUrl_pathname = ''/en/about''\<rparr>)"
proof -
  have no: "\<not> pathnameHasLocale ''/about''"
    by (simp add: pathnameHasLocale_def locales_def)
  have yes: "pathnameHasLocale ''/en/about''"
    by (simp add: pathnameHasLocale_def locales_def)
  have slash: "startsWith ''/about'' ''/'' \<and> \<not> startsWith ''/about'' ''//''"
    by simp
  show ?thesis
    using middleware_rewrite[of "\<lparr>nextUrl_pathname = ''/about''\<rparr>"]
      middleware_rewrite[of "\<lparr>nextUrl_pathname = ''/en/about''\<rparr>"] no yes slash
    by simp
qed

text \<open>
  The claim as stated promises the default locale for every pathname without a locale
  prefix. For "//fr" the prefix is missing, yet \<open>getLocale\<close> finds the segment "fr" and
  the redirect goes to "/fr//fr", not to "/en//fr".
\<close>

theorem middleware_default_locale_counterexample:
  "\<not> pathnameHasLocale ''//fr'' \<and>
   middleware \<lparr>nextUrl_pathname = ''//fr''\<rparr>
     = (Some (Redirect ''/fr//fr''), \<lparr>nextUrl_pathname = ''/fr//fr''\<rparr>) \<and>
   ''/fr//fr'' \<noteq> ''/'' @ locales ! 0 @ ''//fr''"
  by (simp add: middleware_def pathnameHasLocale_def locales_def getLocale_def split_def Let_def)

text \<open>
  Claim C2, as the code has it. Let \<open>docs\<close> be the documents \<open>readMDX\<close> has loaded, each
  with a published timestamp. The array \<open>readMDX\<close> works on is
  \<open>sort_by_published_asc docs\<close>: a rearrangement of \<open>docs\<close>, ascending by \<open>published\<close>.
  When no document has the slug \<open>s\<close> the result is \<open>null\<close>. When \<open>i\<close> is the first index
  of the sorted array whose document has the slug, the result's \<open>current\<close> is the
  document at \<open>i\<close>, \<open>previous\<close> is the frontmatter of the document at \<open>i + 1\<close> if there
  is one and absent otherwise, and \<open>next\<close> is the frontmatter of the document at \<open>i - 1\<close>
  if there is one and absent otherwise.
\<close>

theorem readMDX_siblings:
  assumes loaded: "readMDX_result env (path_join env (cwd env) ''src/content/blog'') = Inr docs"
    and timestamps: "\<forall>d\<in>set docs. published (frontmatter d) \<noteq> None"
  shows
   "mset (sort_by_published_asc docs) = mset docs \<and>
    sorted (map (\<lambda>d. the (published (frontmatter d))) (sort_by_published_asc docs)) \<and>
    ((\<forall>d\<in>set docs. slug (frontmatter d) \<noteq> Some s) \<longrightarrow> readMDX env s = Inr None) \<and>
    (\<forall>i. i < length docs \<and>
         slug (frontmatter (sort_by_published_asc docs ! i)) = Some s \<and>
         (\<forall>j<i. slug (frontmatter (sort_by_published_asc docs ! j)) \<noteq> Some s) \<longrightarrow>
       readMDX env s =
         Inr (Some \<lparr>previous = (if i + 1 < length docs
                                 then Some (frontmatter (sort_by_published_asc docs ! (i + 1)))
                                 else None),
                    current = Some (sort_by_published_asc docs ! i),
                    next' = (if 0 < i
                              then Some (frontmatter (sort_by_published_asc docs ! (i - 1)))
                              else None)\<rparr>))"
proof -
  have perm: "mset (sort_by_published_asc docs) = mset docs"
    by (simp add: sort_by_published_asc_def mset_array_sort)
  have ascending: "sorted (map (\<lambda>d. the (published (frontmatter d))) (sort_by_published_asc docs))"
    using timestamps by (simp add: sort_by_published_asc_key)
  show ?thesis
    using perm ascending readMDX_not_found[OF loaded, of s] readMDX_found[OF loaded, of _ s]
    by blast
qed

text \<open>The three example posts, the slug "b" at index 1 and a slug that no post has.\<close>

theorem readMDX_siblings_witness:
  "readMDX three_posts ''b''
     = Inr (Some \<lparr>previous = Some post_c, current = Some blog_b, next' = Some post_a\<rparr>) \<and>
   readMDX three_posts ''none'' = Inr None \<and>
   sorted (map (\<lambda>d. the (published (frontmatter d)))
     (sort_by_published_asc [blog_b, blog_c, blog_a]))"
proof -
  have timestamps: "\<forall>d\<in>set [blog_b, blog_c, blog_a]. published (frontmatter d) \<noteq> None"
    by (simp add: three_posts_published)
  note facts = readMDX_siblings[OF three_posts_loaded timestamps]
  note found = facts[of "''b''", THEN conjunct2, THEN conjunct2, THEN conjunct2, THEN spec, of 1]
  note absent = facts[of "''none''", THEN conjunct2, THEN conjunct2, THEN conjunct1]
  note ascending = facts[THEN conjunct2, THEN conjunct1]
  have "readMDX three_posts ''b''
     = Inr (Some \<lparr>previous = Some post_c, current = Some blog_b, next' = Some post_a\<rparr>)"
    using found
    by (simp add: three_posts_sorted)
       (simp add: blog_a_def blog_b_def blog_c_def post_a_def post_b_def post_c_def)
  moreover have "readMDX three_posts ''none'' = Inr None"
    using absent
    by (simp add: blog_a_def blog_b_def blog_c_def post_a_def post_b_def post_c_def)
  ultimately show ?thesis using ascending by simp
qed

text \<open>
  The claim as stated has every collection sorted ascending. In the collection w, y, z
  the post y has no timestamp, every comparison with it gives \<^verbatim>\<open>NaN\<close>, and the sort
  leaves the array as it is: w (published 300) stays at index 0 with nothing before it,
  z (published 100) stays at index 2 with nothing after it.
\<close>

theorem readMDX_siblings_undated_counterexample:
  "readMDX undated_posts ''w''
     = Inr (Some \<lparr>previous = Some post_y, current = Some blog_w, next' = None\<rparr>) \<and>
   readMDX undated_posts ''z''
     = Inr (Some \<lparr>previous = None, current = Some blog_z, next' = Some post_y\<rparr>) \<and>
   published post_w = Some 300 \<and> published post_y = None \<and> published post_z = Some 100"
  by (simp add: readMDX_def undated_posts_loaded undated_posts_sorted Let_def array_at_def
      undated_posts_published)
     (simp add: blog_w_def blog_y_def blog_z_def post_w_def post_y_def post_z_def)

text \<open>
  Claim C3, as the code has it. For a collection of exactly three documents \<open>A\<close>, \<open>B\<close>,
  \<open>C\<close> with strictly increasing published timestamps, in whatever order the directory
  lists them: \<open>readMDX\<close> on the slug of \<open>A\<close> yields \<open>next\<close> absent and \<open>previous\<close> the
  frontmatter of \<open>B\<close>; \<open>readMDX\<close> on the slug of \<open>C\<close> (a slug that neither \<open>A\<close> nor \<open>B\<close>
  has) yields \<open>previous\<close> absent and \<open>next\<close> the frontmatter of \<open>B\<close>.
\<close>

theorem readMDX_three_documents:
  assumes loaded: "readMDX_result env (path_join env (cwd env) ''src/content/blog'') = Inr docs"
    and three: "mset docs = {#A, B, C#}"
    and published:
      "published (frontmatter A) = Some a" "published (frontmatter B) = Some b"
      "published (frontmatter C) = Some c" "a < b" "b < c"
    and slugs: "slug (frontmatter A) = Some sA" "slug (frontmatter C) = Some sC"
      "slug (frontmatter A) \<noteq> Some sC" "slug (frontmatter B) \<noteq> Some sC"
  shows "readMDX env sA
           = Inr (Some \<lparr>previous = Some (frontmatter B), current = Some A, next' = None\<rparr>) \<and>
         readMDX env sC
           = Inr (Some \<lparr>previous = None, current = Some C, next' = Some (frontmatter B)\<rparr>)"
proof -
  from three have set: "set docs = {A, B, C}" and len: "length docs = 3"
    by (metis set_mset_mset set_mset_add_mset_insert set_mset_empty,
        metis size_mset size_add_mset size_empty numeral_3_eq_3)
  then have "\<forall>d\<in>set docs. published (frontmatter d) \<noteq> None"
    using published by auto
  then have "sort_by_published_asc docs = sort_key (\<lambda>d. the (published (frontmatter d))) docs"
    by (rule sort_by_published_asc_key)
  also have "\<dots> = [A, B, C]"
    using three published by (intro sort_key_three) auto
  finally have ds: "sort_by_published_asc docs = [A, B, C]" .
  have "readMDX env sA
           = Inr (Some \<lparr>previous = Some (frontmatter B), current = Some A, next' = None\<rparr>)"
    using readMDX_found[OF loaded, of 0 sA] slugs len by (simp add: ds)
  moreover have "readMDX env sC
           = Inr (Some \<lparr>previous = None, current = Some C, next' = Some (frontmatter B)\<rparr>)"
    using readMDX_found[OF loaded, of 2 sC] slugs len by (simp add: ds less_Suc_eq numeral_2_eq_2 )
  ultimately show ?thesis by simp
qed

text \<open>The three example posts, listed by the directory as b, c, a.\<close>

theorem readMDX_three_documents_witness:
  "readMDX three_posts ''a''
     = Inr (Some \<lparr>previous = Some post_b, current = Some blog_a, next' = None\<rparr>) \<and>
   readMDX three_posts ''c''
     = Inr (Some \<lparr>previous = None, current = Some blog_c, next' = Some post_b\<rparr>)"
  using readMDX_three_documents[OF three_posts_loaded three_posts_mset,
      of 100 200 300 "''a''" "''c''"]
  by (simp add: blog_a_def blog_b_def blog_c_def post_a_def post_b_def post_c_def)

text \<open>
  The claim as stated has \<open>previous\<close> absent for the oldest document and \<open>next\<close> absent
  for the newest. On the three example posts it is the other way round: for the oldest
  post \<open>previous\<close> is the post published after it, and for the newest \<open>next\<close> is the post
  published before it.
\<close>

theorem readMDX_three_documents_counterexample:
  "readMDX three_posts ''a''
     = Inr (Some \<lparr>previous = Some post_b, current = Some blog_a, next' = None\<rparr>) \<and>
   readMDX three_posts ''c''
     = Inr (Some \<lparr>previous = None, current = Some blog_c, next' = Some post_b\<rparr>) \<and>
   published post_a = Some 100 \<and> published post_b = Some 200 \<and> published post_c = Some 300"
  by (simp add: readMDX_def three_posts_loaded three_posts_sorted Let_def array_at_def)
     (simp add: blog_a_def blog_b_def blog_c_def post_a_def post_b_def post_c_def)



text \<open>
  Claim C6, as the code has it. For every list of documents that all have a published
  timestamp and every tag, sorting (descending by published timestamp) after filtering
  by the tag gives the same as filtering after sorting, the failure on a document
  without \<open>tags\<close> included. The filter keeps exactly the documents whose tag list
  contains the tag; the sort gives a rearrangement of the list with the timestamps
  descending.
\<close>

theorem filter_sort_commute:
  assumes "\<forall>d\<in>set docs. published d \<noteq> None"
  shows
    "(case filter_by_tag tag docs of
        Inl e \<Rightarrow> Inl e
      | Inr kept \<Rightarrow> Inr (sort_by_published_desc kept))
       = filter_by_tag tag (sort_by_published_desc docs) \<and>
     ((\<forall>d\<in>set docs. tags d \<noteq> None) \<longrightarrow>
        filter_by_tag tag docs = Inr (filter (\<lambda>d. tag \<in> set (the (tags d))) docs)) \<and>
     mset (sort_by_published_desc docs) = mset docs \<and>
     sorted (rev (map (\<lambda>d. the (published d)) (sort_by_published_desc docs)))"
proof -
  let ?key = "\<lambda>d. - the (published d)"
  let ?keep = "\<lambda>d. tag \<in> set (the (tags d))"
  have sort_docs: "sort_by_published_desc docs = sort_key ?key docs"
    using assms by (rule sort_by_published_desc_key)
  have sort_kept: "sort_by_published_desc (filter ?keep docs) = sort_key ?key (filter ?keep docs)"
    using assms by (intro sort_by_published_desc_key) auto
  have same_set: "set (sort_by_published_desc docs) = set docs"
    by (metis desc_mset set_mset_mset)
  have commute: "(case filter_by_tag tag docs of
        Inl e \<Rightarrow> Inl e
      | Inr kept \<Rightarrow> Inr (sort_by_published_desc kept))
       = filter_by_tag tag (sort_by_published_desc docs)"
  proof (cases "\<exists>d\<in>set docs. tags d = None")
    case True
    then show ?thesis by (simp add: filter_by_tag_eq same_set)
  next
    case False
    then show ?thesis
      by (simp add: filter_by_tag_eq same_set sort_kept) (simp add: sort_docs filter_sort)
  qed
  have "sorted (map ?key (sort_key ?key docs))" by (rule sorted_sort_key)
  then have "sorted (map uminus (map (\<lambda>d. the (published d)) (sort_by_published_desc docs)))"
    by (simp add: sort_docs comp_def)
  then have desc: "sorted (rev (map (\<lambda>d. the (published d)) (sort_by_published_desc docs)))"
    by (simp add: sorted_wrt_rev sorted_map sorted_wrt_map) 
  show ?thesis
    using commute desc desc_mset by (simp add: filter_by_tag_eq)
qed

text \<open>The three example posts and the tag "web".\<close>

theorem filter_sort_commute_witness:
  "(case filter_by_tag ''web'' [post_a, post_b, post_c] of
      Inl e \<Rightarrow> Inl e
    | Inr kept \<Rightarrow> Inr (sort_by_published_desc kept)) = Inr [post_b, post_a] \<and>
   filter_by_tag ''web'' (sort_by_published_desc [post_a, post_b, post_c]) = Inr [post_b, post_a] \<and>
   filter_by_tag ''web'' [post_a, post_b, post_c] = Inr [post_a, post_b]"
proof -
  have present: "\<forall>d\<in>set [post_a, post_b, post_c]. published d \<noteq> None"
    by (simp add: post_a_def post_b_def post_c_def)
  have tagged: "\<forall>d\<in>set [post_a, post_b, post_c]. tags d \<noteq> None"
    by (simp add: post_a_def post_b_def post_c_def)
  note facts = filter_sort_commute[OF present, of "''web''"]
  have "filter_by_tag ''web'' (sort_by_published_desc [post_a, post_b, post_c])
          = Inr [post_b, post_a]"
  proof -
    have "sort_by_published_desc [post_a, post_b, post_c] = [post_c, post_b, post_a]"
      by (simp add: sort_by_published_desc_def array_sort_def SortCompare_def Let_def
          binary_search.simps three_posts_published)
    then show ?thesis
      by (simp add: post_a_def post_b_def post_c_def)
  qed
  moreover have "filter_by_tag ''web'' [post_a, post_b, post_c] = Inr [post_a, post_b]"
    using facts[THEN conjunct2, THEN conjunct1, THEN mp, OF tagged]
    by (simp add: post_a_def post_b_def post_c_def)
  ultimately show ?thesis using facts by simp
qed

text \<open>
  The claim as stated is about every list of documents. In the list z, y, w the post y
  has no timestamp and no tag "web": the sort leaves the list as it is, so filtering
  after sorting gives z, w; sorting the filtered list z, w gives w, z.
\<close>

theorem filter_sort_commute_undated_counterexample:
  "filter_by_tag ''web'' (sort_by_published_desc [post_z, post_y, post_w])
     = Inr [post_z, post_w] \<and>
   (case filter_by_tag ''web'' [post_z, post_y, post_w] of
      Inl e \<Rightarrow> Inl e
    | Inr kept \<Rightarrow> Inr (sort_by_published_desc kept)) = Inr [post_w, post_z] \<and>
   [post_z, post_w] \<noteq> [post_w, post_z] \<and>
   published post_z = Some 100 \<and> published post_y = None \<and> published post_w = Some 300"
proof -
  have sorted_all: "sort_by_published_desc [post_z, post_y, post_w] = [post_z, post_y, post_w]"
    by (simp add: sort_by_published_desc_def array_sort_def SortCompare_def Let_def
        binary_search.simps undated_posts_published)
  have sorted_kept: "sort_by_published_desc [post_z, post_w] = [post_w, post_z]"
    by (simp add: sort_by_published_desc_def array_sort_def SortCompare_def Let_def
        binary_search.simps undated_posts_published)
  have tags: "tags post_z = Some [''web'']" "tags post_y = Some [''draft'']"
    "tags post_w = Some [''web'']"
    by (simp_all add: post_w_def post_y_def post_z_def)
  have differ: "post_z \<noteq> post_w"
    by (simp add: post_w_def post_z_def)
  show ?thesis
    using differ by (simp add: sorted_all sorted_kept tags undated_posts_published)
qed

text \<open>
  Claim C4, as the code has it. \<open>getAllMetaData\<close> has no check of the frontmatter fields
  and no error of its own for a malformed document. Called without a tag on the
  directory \<open>dir\<close>, it fails when \<open>readdir\<close> fails, with that error, and when the
  directory lists a file that cannot be read or cannot be compiled; when it fails, its
  error is that of \<open>readdir\<close> or that of reading or compiling a listed file. When the
  directory and every file of it can be read and compiled, it returns a rearrangement
  of the frontmatter of all the files, whatever fields they lack.
\<close>

theorem getAllMetaData_no_field_check:
  assumes dir: "dir = path_join env (cwd env)
      (BASE_CONTENT_PATH @ (case filepath of None \<Rightarrow> ''/blog'' | Some p \<Rightarrow> p))"
  shows
  "(\<forall>e. readdir env dir = Inl e \<longrightarrow> getAllMetaData env filepath None = Inl e) \<and>
   (\<forall>files file e. readdir env dir = Inr files \<and> file \<in> set files \<and>
        readFile env (dir @ ''/'' @ file) = Inl e \<longrightarrow>
      (\<exists>e'. getAllMetaData env filepath None = Inl e')) \<and>
   (\<forall>files file source e. readdir env dir = Inr files \<and> file \<in> set files \<and>
        readFile env (dir @ ''/'' @ file) = Inr source \<and>
        compileMDX env ParseFrontmatter source = Inl e \<longrightarrow>
      (\<exists>e'. getAllMetaData env filepath None = Inl e')) \<and>
   (\<forall>e. getAllMetaData env filepath None = Inl e \<longrightarrow>
      readdir env dir = Inl e \<or>
      (\<exists>files file. readdir env dir = Inr files \<and> file \<in> set files \<and>
         (readFile env (dir @ ''/'' @ file) = Inl e \<or>
          (\<exists>source. readFile env (dir @ ''/'' @ file) = Inr source \<and>
             compileMDX env ParseFrontmatter source = Inl e)))) \<and>
   (\<forall>files. readdir env dir = Inr files \<and>
      (\<forall>file\<in>set files. \<exists>source parsed.
          readFile env (dir @ ''/'' @ file) = Inr source \<and>
          compileMDX env ParseFrontmatter source = Inr parsed) \<longrightarrow>
      (\<exists>result. getAllMetaData env filepath None = Inr result \<and>
         mset result =
           mset (map (\<lambda>file. frontmatter (projr (compileMDX env ParseFrontmatter
                     (projr (readFile env (dir @ ''/'' @ file)))))) files)))"
proof -
  let ?load = "\<lambda>file.
            case readFile env (dir @ ''/'' @ file) of
              Inl e \<Rightarrow> Inl e
            | Inr fileContent \<Rightarrow>
                (case compileMDX env ParseFrontmatter fileContent of
                   Inl e \<Rightarrow> Inl e
                 | Inr parsed \<Rightarrow> Inr (frontmatter parsed))"
  have whole: "getAllMetaData env filepath None =
      (case getAllMetaData_result env dir of
         Inl e \<Rightarrow> Inl e | Inr docs \<Rightarrow> Inr (sort_by_published_desc docs))"
    by (simp add: getAllMetaData_def Let_def dir split: sum.splits)
  have listed: "getAllMetaData_result env dir = promise_all (map ?load files)"
    if "readdir env dir = Inr files" for files
    using that by (simp add: getAllMetaData_result_def)
  have A: "getAllMetaData env filepath None = Inl e" if "readdir env dir = Inl e" for e
    using that by (simp add: whole getAllMetaData_result_def)
  have fails: "\<exists>e'. getAllMetaData env filepath None = Inl e'"
    if rd: "readdir env dir = Inr files" and member: "f \<in> set files" and bad: "?load f = Inl e"
    for files f e
  proof -
    have "Inl e \<in> set (map ?load files)"
      using member bad by (metis (mono_tags, lifting) image_eqI set_map)
    then obtain e' where "promise_all (map ?load files) = Inl e'"
      using promise_all_fails by blast
    then show ?thesis by (simp add: whole listed[OF rd])
  qed
  have B: "\<exists>e'. getAllMetaData env filepath None = Inl e'"
    if "readdir env dir = Inr files" "f \<in> set files"
       "readFile env (dir @ ''/'' @ f) = Inl e" for files f e
    using fails[OF that(1,2), of e] that(3) by simp
  have C: "\<exists>e'. getAllMetaData env filepath None = Inl e'"
    if "readdir env dir = Inr files" "f \<in> set files"
       "readFile env (dir @ ''/'' @ f) = Inr source"
       "compileMDX env ParseFrontmatter source = Inl e" for files f source e
    using fails[OF that(1,2), of e] that(3,4) by simp
  have D: "readdir env dir = Inl e \<or>
      (\<exists>files file. readdir env dir = Inr files \<and> file \<in> set files \<and>
         (readFile env (dir @ ''/'' @ file) = Inl e \<or>
          (\<exists>source. readFile env (dir @ ''/'' @ file) = Inr source \<and>
             compileMDX env ParseFrontmatter source = Inl e)))"
    if failed: "getAllMetaData env filepath None = Inl e" for e
  proof (cases "readdir env dir")
    case (Inl e0)
    then show ?thesis using failed A[OF Inl] by simp
  next
    case (Inr files)
    from failed have "promise_all (map ?load files) = Inl e"
      by (simp add: whole listed[OF Inr] split: sum.splits)
    then have "Inl e \<in> set (map ?load files)" by (rule promise_all_Inl)
    then obtain f where member: "f \<in> set files" "?load f = Inl e" by auto
    then have "readFile env (dir @ ''/'' @ f) = Inl e \<or>
          (\<exists>source. readFile env (dir @ ''/'' @ f) = Inr source \<and>
             compileMDX env ParseFrontmatter source = Inl e)"
      by (auto split: sum.splits)
    with Inr member(1) show ?thesis by blast
  qed
  have E: "\<exists>result. getAllMetaData env filepath None = Inr result \<and>
         mset result =
           mset (map (\<lambda>file. frontmatter (projr (compileMDX env ParseFrontmatter
                     (projr (readFile env (dir @ ''/'' @ file)))))) files)"
    if rd: "readdir env dir = Inr files"
      and ok: "\<forall>file\<in>set files. \<exists>source parsed.
          readFile env (dir @ ''/'' @ file) = Inr source \<and>
          compileMDX env ParseFrontmatter source = Inr parsed" for files
  proof -
    have each: "\<forall>file\<in>set files. ?load file = Inr (frontmatter (projr (compileMDX env ParseFrontmatter
                     (projr (readFile env (dir @ ''/'' @ file))))))"
      using ok by fastforce
    then have "promise_all (map ?load files) = Inr (map (\<lambda>x. projr (?load x)) files)"
      by (intro promise_all_map) blast
    also have "map (\<lambda>x. projr (?load x)) files = map (\<lambda>file. frontmatter (projr (compileMDX env ParseFrontmatter
                     (projr (readFile env (dir @ ''/'' @ file)))))) files"
      using each by (intro map_cong) auto
    finally show ?thesis
      by (simp add: whole listed[OF rd] desc_mset)
  qed
  show ?thesis
    using A B C D E by blast
qed

text \<open>
  The post of the repository, which has neither author nor tags; a directory that
  does not exist; and the collection with a file that cannot be compiled.
\<close>

theorem getAllMetaData_no_field_check_witness:
  "getAllMetaData (single_post post_i18n) None None = Inr [post_i18n] \<and>
   author post_i18n = None \<and> tags post_i18n = None \<and>
   getAllMetaData (single_post post_i18n) (Some ''/drafts'') None = Inl (IOError ''ENOENT'') \<and>
   (\<exists>e. getAllMetaData broken_posts None None = Inl e)"
proof -
  have dir: "''/site/src/content/blog'' =
      path_join (single_post post_i18n) (cwd (single_post post_i18n))
        (BASE_CONTENT_PATH @ (case None of None \<Rightarrow> ''/blog'' | Some p \<Rightarrow> p))"
    by (simp add: single_post_dir)
  note loads = getAllMetaData_no_field_check[OF dir, THEN conjunct2, THEN conjunct2,
      THEN conjunct2, THEN conjunct2, THEN spec, of "[''post.mdx'']"]
  have "readdir (single_post post_i18n) ''/site/src/content/blog'' = Inr [''post.mdx''] \<and>
    (\<forall>file\<in>set [''post.mdx'']. \<exists>source parsed.
        readFile (single_post post_i18n) (''/site/src/content/blog'' @ ''/'' @ file) = Inr source \<and>
        compileMDX (single_post post_i18n) ParseFrontmatter source = Inr parsed)"
    by (simp add: single_post_def)
  with loads obtain result where
    "getAllMetaData (single_post post_i18n) None None = Inr result"
    "mset result = mset (map (\<lambda>file. frontmatter (projr (compileMDX (single_post post_i18n)
        ParseFrontmatter (projr (readFile (single_post post_i18n)
          (''/site/src/content/blog'' @ ''/'' @ file)))))) [''post.mdx''])"
    by blast
  then have 1: "getAllMetaData (single_post post_i18n) None None = Inr [post_i18n]"
    by (simp add: single_post_def)
  have dir2: "''/site/src/content/drafts'' =
      path_join (single_post post_i18n) (cwd (single_post post_i18n))
        (BASE_CONTENT_PATH @ (case Some ''/drafts'' of None \<Rightarrow> ''/blog'' | Some p \<Rightarrow> p))"
    by (simp add: single_post_def BASE_CONTENT_PATH_def)
  have "readdir (single_post post_i18n) ''/site/src/content/drafts'' = Inl (IOError ''ENOENT'')"
    by (simp add: single_post_def)
  with getAllMetaData_no_field_check[OF dir2, THEN conjunct1]
  have 2: "getAllMetaData (single_post post_i18n) (Some ''/drafts'') None = Inl (IOError ''ENOENT'')"
    by blast
  have dir3: "''/site/src/content/blog'' =
      path_join broken_posts (cwd broken_posts)
        (BASE_CONTENT_PATH @ (case None of None \<Rightarrow> ''/blog'' | Some p \<Rightarrow> p))"
    by (simp add: broken_posts_dir)
  have "readdir broken_posts ''/site/src/content/blog'' = Inr [''bad.mdx'', ''gone.mdx''] \<and>
      ''bad.mdx'' \<in> set [''bad.mdx'', ''gone.mdx''] \<and>
      readFile broken_posts (''/site/src/content/blog'' @ ''/'' @ ''bad.mdx'') = Inr ''text'' \<and>
      compileMDX broken_posts ParseFrontmatter ''text'' = Inl (MDXError ''syntax'')"
    by (simp add: broken_posts_def)
  with getAllMetaData_no_field_check[OF dir3, THEN conjunct2, THEN conjunct2, THEN conjunct1]
  have 3: "\<exists>e. getAllMetaData broken_posts None None = Inl e"
    by blast
  have 4: "author post_i18n = None \<and> tags post_i18n = None"
    by (simp add: post_i18n_def)
  from 1 2 3 4 show ?thesis by simp
qed

text \<open>
  The claim as stated has the load fail with a MalformedDocumentError. For a collection
  whose one document has none of the required fields, \<open>getAllMetaData\<close> returns the
  document.
\<close>

theorem getAllMetaData_malformed_counterexample:
  "getAllMetaData (single_post no_fields) None None = Inr [no_fields] \<and>
   title no_fields = None \<and> slug no_fields = None \<and> description no_fields = None \<and>
   author no_fields = None \<and> published no_fields = None \<and> tags no_fields = None"
proof -
  have "getAllMetaData (single_post no_fields) None None = Inr [no_fields]"
    by (simp add: getAllMetaData_def single_post_dir single_post_result Let_def
        sort_by_published_desc_def array_sort_def)
  then show ?thesis by (simp add: no_fields_def)
qed

text \<open>
  Claim C5: the estimate is the ceiling of the word count over 200, so 2 for a document
  of 400 words. The code counts the pieces of \<^verbatim>\<open>text.split(/\s+/)\<close> as \<open>wordCount\<close>,
  and the split leaves an empty piece after white space at the end of the text. At the
  text of 400 words each followed by a line feed, the word count is 400, its ceiling
  over 200 is 2, and \<open>estimateReadingTime\<close> returns 3.
\<close>

theorem estimateReadingTime_400_words:
  "word_count (concat (replicate 400 [CHR ''w'', CHR 0x0A])) = 400 \<and>
   \<lceil>real (word_count (concat (replicate 400 [CHR ''w'', CHR 0x0A]))) / 200\<rceil> = 2 \<and>
   estimateReadingTime (concat (replicate 400 [CHR ''w'', CHR 0x0A])) = 3"
proof -
  let ?t = "concat (replicate 400 [CHR ''w'', CHR 0x0A])"
  have w: "\<not> isWhiteSpace CHR ''w''" and nl: "isWhiteSpace (CHR 0x0A)"
    by (simp_all add: isWhiteSpace_def)
  have count: "word_count ?t = 400"
    using word_count_from_replicate[OF w nl, of 400 "[]"] by (simp add: word_count_def)
  have "?t \<noteq> []" "last ?t = CHR 0x0A"
    using concat_replicate_nonempty[of 400] last_concat_replicate[of 400] by simp_all
  moreover have "hd ?t = CHR ''w''"
    using hd_append2[of "[CHR ''w'', CHR 0x0A]" "concat (replicate 399 [CHR ''w'', CHR 0x0A])"]
      replicate_Suc[of 399 "[CHR ''w'', CHR 0x0A]"] by simp
  ultimately have "length (split_whitespace ?t) = 401"
    unfolding wordCount_eq using count w nl by simp
  then have "estimateReadingTime ?t = 3"
    by (simp add: estimateReadingTime_div)
  moreover have "\<lceil>real (400::nat) / 200\<rceil> = 2"
    unfolding ceiling_div_200 by simp
  ultimately show ?thesis using count by simp
qed

text \<open>
  Claim C10. For every text, the empty one included, \<open>estimateReadingTime\<close> returns an
  integer that is at least 1.
\<close>

theorem estimateReadingTime_at_least_one: "1 \<le> estimateReadingTime text"
proof -
  have "split_whitespace text \<noteq> []"
    by (simp add: split_whitespace_def split_whitespace_from_nonempty)
  then have "1 \<le> int (length (split_whitespace text))"
    by (cases "split_whitespace text") simp_all
  then show ?thesis
    unfolding estimateReadingTime_div by linarith
qed

text \<open>
  Claim C9, as the code has it. When the two JSON modules load: "fr" is a locale of the
  enumeration and \<open>getDictionary\<close> fails on it; \<open>getDictionary L\<close> returns a dictionary
  exactly when \<open>L\<close> is "en" or "ja"; for a locale of the enumeration it succeeds exactly
  when the locale is "en" or "ja"; and it fails on every other \<open>L\<close> that does not name a
  function inherited from \<^verbatim>\<open>Object.prototype\<close>.
\<close>

theorem getDictionary_locales:
  assumes en: "import_json ''@/dict/en.json'' = Inr en"
    and ja: "import_json ''@/dict/ja.json'' = Inr ja"
  shows "''fr'' \<in> set locales \<and> getDictionary import_json ''fr'' = Inl not_a_function \<and>
    (\<forall>L. (\<exists>d. getDictionary import_json L = Inr (Dictionary d)) \<longleftrightarrow> L = ''en'' \<or> L = ''ja'') \<and>
    (\<forall>L. L \<in> set locales \<longrightarrow>
         ((\<exists>v. getDictionary import_json L = Inr v) \<longleftrightarrow> L = ''en'' \<or> L = ''ja'')) \<and>
    (\<forall>L. L \<noteq> ''en'' \<and> L \<noteq> ''ja'' \<and> \<not> array_includes object_prototype_functions L \<longrightarrow>
         getDictionary import_json L = Inl not_a_function)"
proof -
  have fr: "getDictionary import_json ''fr'' = Inl not_a_function"
    by (simp add: getDictionary_def dictionaries_def object_prototype_get_def
        object_prototype_functions_def)
  have loaders: "getDictionary import_json ''en'' = Inr (Dictionary en)"
    "getDictionary import_json ''ja'' = Inr (Dictionary ja)"
    using en ja by (simp_all add: getDictionary_def dictionaries_def)
  have only: "L = ''en'' \<or> L = ''ja''" if "getDictionary import_json L = Inr (Dictionary d)" for L d
  proof (rule ccontr)
    assume "\<not> (L = ''en'' \<or> L = ''ja'')"
    then have "getDictionary import_json L = call_inherited L \<or>
        getDictionary import_json L = Inl not_a_function"
      using getDictionary_inherited[of L import_json] by simp
    with that show False
      using call_inherited_no_dictionary[of L d] by auto
  qed
  have other: "getDictionary import_json L = Inl not_a_function"
    if "L \<noteq> ''en''" "L \<noteq> ''ja''" "\<not> array_includes object_prototype_functions L" for L
    using dictionaries_other[OF that] by (auto simp only: getDictionary_def property.case)
  have enumerated: "(\<exists>v. getDictionary import_json L = Inr v) \<longleftrightarrow> L = ''en'' \<or> L = ''ja''"
    if "L \<in> set locales" for L
  proof -
    from that have "L = ''en'' \<or> L = ''fr'' \<or> L = ''ja''"
      by (simp add: locales_def)
    then show ?thesis using fr loaders by auto
  qed
  have member: "''fr'' \<in> set locales" by (simp add: locales_def)
  have iff: "(\<exists>d. getDictionary import_json L = Inr (Dictionary d)) \<longleftrightarrow> L = ''en'' \<or> L = ''ja''"
    for L
    using only[of L] loaders by blast
  show ?thesis
  proof (intro conjI allI impI)
    show "''fr'' \<in> set locales" by (rule member)
    show "getDictionary import_json ''fr'' = Inl not_a_function" by (rule fr)
    show "(\<exists>d. getDictionary import_json L = Inr (Dictionary d)) \<longleftrightarrow> L = ''en'' \<or> L = ''ja''"
      for L by (rule iff)
    show "(\<exists>v. getDictionary import_json L = Inr v) \<longleftrightarrow> L = ''en'' \<or> L = ''ja''"
      if "L \<in> set locales" for L using that by (rule enumerated)
    show "getDictionary import_json L = Inl not_a_function"
      if "L \<noteq> ''en'' \<and> L \<noteq> ''ja'' \<and> \<not> array_includes object_prototype_functions L" for L
      using that other[of L] by (elim conjE)
  qed
qed

text \<open>The modules of the post, and the inputs "fr", "en" and "de".\<close>

theorem getDictionary_locales_witness:
  "getDictionary dict_modules ''fr'' = Inl not_a_function \<and>
   getDictionary dict_modules ''en'' = Inr (Dictionary ''AriaDocs - Template'') \<and>
   getDictionary dict_modules ''de'' = Inl not_a_function \<and>
   (\<exists>v. getDictionary dict_modules ''ja'' = Inr v)"
proof -
  have en: "dict_modules ''@/dict/en.json'' = Inr ''AriaDocs - Template''"
    and ja: "dict_modules ''@/dict/ja.json'' = Inr ''AriaDocs - Template (ja)''"
    by (simp_all add: dict_modules_def)
  note facts = getDictionary_locales[OF en ja]
  have de: "''de'' \<noteq> ''en'' \<and> ''de'' \<noteq> ''ja'' \<and> \<not> array_includes object_prototype_functions ''de''"
    by (simp add: object_prototype_functions_def)
  have 1: "getDictionary dict_modules ''fr'' = Inl not_a_function"
    by (rule facts[THEN conjunct2, THEN conjunct1])
  have 2: "getDictionary dict_modules ''en'' = Inr (Dictionary ''AriaDocs - Template'')"
    by (simp add: getDictionary_def dictionaries_def en)
  have 3: "getDictionary dict_modules ''de'' = Inl not_a_function"
    by (rule facts[THEN conjunct2, THEN conjunct2, THEN conjunct2, THEN conjunct2, THEN spec,
          THEN mp, OF de])
  have enumerated: "''ja'' \<in> set locales"
    by (simp add: locales_def)
  have 4: "\<exists>v. getDictionary dict_modules ''ja'' = Inr v"
    using facts[THEN conjunct2, THEN conjunct2, THEN conjunct2, THEN conjunct1, THEN spec,
        THEN mp, OF enumerated]
    by simp
  from 1 2 3 4 show ?thesis by (intro conjI)
qed

text \<open>
  The claim as stated has \<open>getDictionary\<close> fail on every input but "en" and "ja". On
  "toString" the property read finds the function inherited from
  \<^verbatim>\<open>Object.prototype\<close>, the call returns a string, and \<open>getDictionary\<close> succeeds
  (with a value that is no dictionary).
\<close>

theorem getDictionary_inherited_counterexample:
  "getDictionary dict_modules ''toString'' = Inr (String_value ''[object Object]'') \<and>
   ''toString'' \<noteq> ''en'' \<and> ''toString'' \<noteq> ''ja''"
  by (simp add: getDictionary_def dictionaries_def object_prototype_get_def
        object_prototype_functions_def call_inherited_def)

end
